theory Spec2Isabelle
  imports Main "HOL-Library.AList"
begin

section \<open>Values of the JavaScript runtime\<close>

text \<open>
  Hosts are strings. Ports are JavaScript numbers in the source: the embedding takes the
  natural numbers among them and \<^verbatim>\<open>NaN\<close>, which \<^verbatim>\<open>parseInt\<close> gives for a port variable that
  is not a number. A template literal renders a natural number in decimal and \<^verbatim>\<open>NaN\<close> by
  its name; adding to \<^verbatim>\<open>NaN\<close> gives \<^verbatim>\<open>NaN\<close>.
\<close>

type_synonym host = string

datatype port = Port nat | NaN

fun num_to_string :: "nat \<Rightarrow> string" where
  "num_to_string n =
     (if n < 10 then [''0123456789'' ! n]
      else num_to_string (n div 10) @ [''0123456789'' ! (n mod 10)])"

declare num_to_string.simps [simp del]

fun port_to_string :: "port \<Rightarrow> string" where
  "port_to_string (Port n) = num_to_string n"
| "port_to_string NaN = ''NaN''"

fun port_plus :: "port \<Rightarrow> nat \<Rightarrow> port" where
  "port_plus (Port n) i = Port (n + i)"
| "port_plus NaN i = NaN"

text \<open>config.ts: \<^verbatim>\<open>buildWebSocketURL\<close>.\<close>

definition buildWebSocketURL :: "host \<Rightarrow> port \<Rightarrow> string" where
  "buildWebSocketURL h p = ''ws://'' @ h @ '':'' @ port_to_string p"

text \<open>
  A promise is unsettled, resolved with a value or rejected with an error message.
  Settling a promise that is already settled changes nothing.
\<close>

datatype 'a promise = Unsettled | Resolved 'a | Rejected string

definition settle :: "nat \<Rightarrow> 'a promise \<Rightarrow> 'a promise list \<Rightarrow> 'a promise list" where
  "settle k v ps = (if k < length ps \<and> ps ! k = Unsettled then ps[k := v] else ps)"

section \<open>plugin-client.ts: the PluginClient\<close>

datatype ready_state = CONNECTING | OPEN | CLOSING | CLOSED

record PluginCommand =
  cmd_id :: "string option"
  command :: string
  args :: "string option"

record PluginResponse =
  resp_id :: "string option"
  success :: bool
  data :: "string option"
  error :: "string option"

text \<open>
  An inbound frame either fails \<^verbatim>\<open>JSON.parse\<close> (or parses to a value whose \<^verbatim>\<open>id\<close> cannot be
  read), or it parses to a message. \<open>resp_id\<close> is \<open>None\<close> when the message has no string id.
\<close>

datatype inbound = Unparseable | Parsed PluginResponse

datatype emitted = EvConnected | EvDisconnected | EvError string | EvEvent PluginResponse

text \<open>
  The two kinds of timer the client arms: the timeout of a request (the request id, the
  promise of the call and \<^verbatim>\<open>timeoutMs\<close>, which is also the delay), and the reconnect timer
  (its delay in milliseconds). A timer handle is the index of the timer in \<open>timers\<close>.
\<close>

datatype timer = RequestTimer string nat nat | ReconnectTimer nat

datatype timer_status = Armed | Fired | Cleared

text \<open>
  An entry of \<^verbatim>\<open>_pendingRequests\<close>: \<^verbatim>\<open>resolve\<close> and \<^verbatim>\<open>reject\<close> are the two closures of one
  promise, named here by the index of that promise; \<^verbatim>\<open>timeout\<close> is a timer handle.
\<close>

record pending =
  settles :: nat
  timeout :: nat

text \<open>
  A WebSocket object made by \<^verbatim>\<open>connect\<close>: the handlers attached to it close over the
  \<^verbatim>\<open>resolve\<close>/\<^verbatim>\<open>reject\<close> of the promise that this \<^verbatim>\<open>connect\<close> call returned (\<open>opener\<close>).
\<close>

record socket =
  sock_url :: string
  readyState :: ready_state
  opener :: nat

text \<open>
  A frame handed to \<^verbatim>\<open>ws.send\<close>, with what its completion callback closes over: the
  request id, the promise of the call and the handle of its timeout.
\<close>

record sent =
  w_socket :: nat
  w_frame :: PluginCommand
  w_id :: string
  w_call :: nat
  w_timer :: nat

text \<open>
  The fields of the class (\<open>ws\<close> is \<^verbatim>\<open>_ws\<close>, an index into \<open>sockets\<close>), followed by what the
  runtime holds for it: the sockets it created, its timers, the promises returned by
  \<^verbatim>\<open>sendCommand\<close> and by \<^verbatim>\<open>connect\<close>, the frames it wrote and the events it emitted.
  \<^verbatim>\<open>_maxReconnectAttempts\<close> is a private field initialised to 5 and never assigned.

  The class extends the event emitter of the runtime. \<open>errorListener\<close> says whether a
  listener for \<^verbatim>\<open>error\<close> events has been attached to the client with \<^verbatim>\<open>on\<close>; the class
  attaches none. \<open>uncaught\<close> collects the exceptions that a handler of the client has
  thrown to the runtime. The runtime ends the process on such an exception unless it is
  told otherwise; the embedding records the exception and keeps the state.
\<close>

record client =
  host_c :: host
  port_c :: port
  url :: string
  ws :: "nat option"
  reconnectAttempts :: nat
  pendingRequests :: "string \<rightharpoonup> pending"
  sockets :: "socket list"
  timers :: "(timer \<times> timer_status) list"
  promises :: "PluginResponse promise list"
  connects :: "unit promise list"
  writes :: "sent list"
  emitted :: "emitted list"
  errorListener :: bool
  uncaught :: "string list"

definition maxReconnectAttempts :: nat where
  "maxReconnectAttempts = 5"

definition PluginClient :: "host \<Rightarrow> port \<Rightarrow> client" where
  "PluginClient h p =
     \<lparr>host_c = h, port_c = p, url = buildWebSocketURL h p, ws = None,
      reconnectAttempts = 0, pendingRequests = Map.empty, sockets = [], timers = [],
      promises = [], connects = [], writes = [], emitted = [],
      errorListener = False, uncaught = []\<rparr>"

definition isConnected :: "client \<Rightarrow> bool" where
  "isConnected c =
     (case ws c of
        None \<Rightarrow> False
      | Some s \<Rightarrow> s < length (sockets c) \<and> readyState (sockets c ! s) = OPEN)"

definition setTimeout :: "timer \<Rightarrow> client \<Rightarrow> client" where
  "setTimeout t c = c\<lparr>timers := timers c @ [(t, Armed)]\<rparr>"

definition clearTimeout :: "nat \<Rightarrow> client \<Rightarrow> client" where
  "clearTimeout h c =
     (if h < length (timers c) \<and> snd (timers c ! h) = Armed
      then c\<lparr>timers := (timers c)[h := (fst (timers c ! h), Cleared)]\<rparr>
      else c)"

text \<open>
  \<^verbatim>\<open>emit\<close> hands an event to the listeners of the client, which are code outside the
  class; the embedding records the event. An \<^verbatim>\<open>error\<close> event is the one case in which the
  emitter of the runtime does more: it throws the error when no listener for \<^verbatim>\<open>error\<close> is
  attached. That case is in \<open>on_error\<close>, the only place where the class emits it.
\<close>

definition emit :: "emitted \<Rightarrow> client \<Rightarrow> client" where
  "emit e c = c\<lparr>emitted := emitted c @ [e]\<rparr>"

definition settle_call :: "nat \<Rightarrow> PluginResponse promise \<Rightarrow> client \<Rightarrow> client" where
  "settle_call k v c = c\<lparr>promises := settle k v (promises c)\<rparr>"

definition settle_connect :: "nat \<Rightarrow> unit promise \<Rightarrow> client \<Rightarrow> client" where
  "settle_connect sid v c =
     (if sid < length (sockets c)
      then c\<lparr>connects := settle (opener (sockets c ! sid)) v (connects c)\<rparr>
      else c)"

text \<open>\<^verbatim>\<open>connect\<close>: resolves at once when the channel is open, otherwise makes a new socket.\<close>

definition connect :: "client \<Rightarrow> client" where
  "connect c =
     (if isConnected c then c\<lparr>connects := connects c @ [Resolved ()]\<rparr>
      else c\<lparr>ws := Some (length (sockets c)),
             sockets := sockets c @
               [\<lparr>sock_url = url c, readyState = CONNECTING, opener = length (connects c)\<rparr>],
             connects := connects c @ [Unsettled]\<rparr>)"

text \<open>
  \<^verbatim>\<open>connect\<close> when the constructor of the socket throws, as it does for a URL that is not
  valid: the executor of the promise throws, so the promise is rejected, and \<^verbatim>\<open>_ws\<close> is
  not assigned.
\<close>

definition connect_invalid :: "string \<Rightarrow> client \<Rightarrow> client" where
  "connect_invalid err c =
     (if isConnected c then c\<lparr>connects := connects c @ [Resolved ()]\<rparr>
      else c\<lparr>connects := connects c @ [Rejected err]\<rparr>)"

text \<open>The four handlers that \<^verbatim>\<open>connect\<close> attaches to the socket \<open>sid\<close>.\<close>

definition on_open :: "nat \<Rightarrow> client \<Rightarrow> client" where
  "on_open sid c =
     settle_connect sid (Resolved ()) (emit EvConnected (c\<lparr>reconnectAttempts := 0\<rparr>))"

definition on_message :: "nat \<Rightarrow> inbound \<Rightarrow> client \<Rightarrow> client" where
  "on_message sid d c =
     (case d of
        Unparseable \<Rightarrow> c
      | Parsed message \<Rightarrow>
          (case resp_id message of
             None \<Rightarrow> emit (EvEvent message) c
           | Some i \<Rightarrow>
               if i \<noteq> [] \<and> pendingRequests c i \<noteq> None
               then (case pendingRequests c i of
                       None \<Rightarrow> c
                     | Some p \<Rightarrow>
                         settle_call (settles p) (Resolved message)
                           ((clearTimeout (timeout p) c)
                              \<lparr>pendingRequests := (pendingRequests c)(i := None)\<rparr>))
               else emit (EvEvent message) c))"

text \<open>
  The handler of \<^verbatim>\<open>error\<close> runs \<^verbatim>\<open>this.emit('error', err)\<close> and then \<^verbatim>\<open>reject(err)\<close>. Without
  a listener the first statement throws: the promise of \<^verbatim>\<open>connect\<close> is not rejected, and the
  exception leaves the handler.
\<close>

definition on_error :: "nat \<Rightarrow> string \<Rightarrow> client \<Rightarrow> client" where
  "on_error sid err c =
     (if errorListener c
      then settle_connect sid (Rejected err) (emit (EvError err) c)
      else c\<lparr>uncaught := uncaught c @ [err]\<rparr>)"

definition on_close :: "nat \<Rightarrow> client \<Rightarrow> client" where
  "on_close sid c =
     (let c1 = (emit EvDisconnected c)\<lparr>ws := None\<rparr> in
      if reconnectAttempts c1 < maxReconnectAttempts
      then (let c2 = c1\<lparr>reconnectAttempts := reconnectAttempts c1 + 1\<rparr>
            in setTimeout (ReconnectTimer (1000 * reconnectAttempts c2)) c2)
      else c1)"

text \<open>\<^verbatim>\<open>ws.close()\<close> of the library: a socket that is not closed yet starts closing.\<close>

definition close_socket :: "nat \<Rightarrow> socket list \<Rightarrow> socket list" where
  "close_socket s socks =
     (if s < length socks \<and> readyState (socks ! s) \<noteq> CLOSED
      then socks[s := (socks ! s)\<lparr>readyState := CLOSING\<rparr>]
      else socks)"

definition disconnect :: "client \<Rightarrow> client" where
  "disconnect c =
     (case ws c of
        None \<Rightarrow> c
      | Some s \<Rightarrow>
          c\<lparr>reconnectAttempts := maxReconnectAttempts,
            sockets := close_socket s (sockets c),
            ws := None\<rparr>)"

text \<open>
  \<^verbatim>\<open>sendCommand\<close>. The request id comes from the clock and the random generator, so it is
  an argument here. The function is \<^verbatim>\<open>async\<close>: its \<^verbatim>\<open>throw\<close> is a rejected promise.
\<close>

definition sendCommand :: "string \<Rightarrow> PluginCommand \<Rightarrow> nat \<Rightarrow> client \<Rightarrow> client" where
  "sendCommand rid cmd timeoutMs c =
     (if \<not> isConnected c
      then c\<lparr>promises := promises c @ [Rejected ''Not connected to plugin'']\<rparr>
      else
        (let k = length (promises c);
             h = length (timers c);
             c1 = c\<lparr>promises := promises c @ [Unsettled]\<rparr>;
             c2 = setTimeout (RequestTimer rid k timeoutMs) c1;
             c3 = c2\<lparr>pendingRequests := (pendingRequests c2)(rid \<mapsto> \<lparr>settles = k, timeout = h\<rparr>)\<rparr>
         in c3\<lparr>writes := writes c3 @
               [\<lparr>w_socket = (case ws c of Some s \<Rightarrow> s | None \<Rightarrow> 0),
                 w_frame = cmd\<lparr>cmd_id := Some rid\<rparr>,
                 w_id = rid, w_call = k, w_timer = h\<rparr>]\<rparr>))"

text \<open>The callback of an armed timer; a timer that was cleared or has fired does nothing.\<close>

definition timer_fires :: "nat \<Rightarrow> client \<Rightarrow> client" where
  "timer_fires h c =
     (if h < length (timers c) \<and> snd (timers c ! h) = Armed
      then (let c1 = c\<lparr>timers := (timers c)[h := (fst (timers c ! h), Fired)]\<rparr> in
            case fst (timers c ! h) of
              RequestTimer rid k timeoutMs \<Rightarrow>
                settle_call k
                  (Rejected (''Request timeout after '' @ num_to_string timeoutMs @ ''ms''))
                  (c1\<lparr>pendingRequests := (pendingRequests c1)(rid := None)\<rparr>)
            | ReconnectTimer d \<Rightarrow> connect c1)
      else c)"

text \<open>The completion callback of the \<open>i\<close>-th write, called with an error.\<close>

definition send_failed :: "nat \<Rightarrow> string \<Rightarrow> client \<Rightarrow> client" where
  "send_failed i err c =
     (if i < length (writes c)
      then (let w = writes c ! i;
                c1 = clearTimeout (w_timer w) c;
                c2 = c1\<lparr>pendingRequests := (pendingRequests c1)(w_id w := None)\<rparr>
            in settle_call (w_call w) (Rejected err) c2)
      else c)"

text \<open>
  What can happen to a client: a call of one of its methods (\<open>CallOnError\<close> is
  \<^verbatim>\<open>on('error', listener)\<close>, \<open>CallConnectInvalid\<close> is \<^verbatim>\<open>connect\<close> when the constructor of the
  socket throws), an event of one of its sockets (the library sets \<^verbatim>\<open>readyState\<close> before it
  calls the handler), a timer firing, or the completion callback of a write reporting an
  error.
\<close>

datatype event =
    CallConnect
  | CallDisconnect
  | CallSendCommand string PluginCommand nat
  | WsOpen nat
  | WsMessage nat inbound
  | WsError nat string
  | WsClose nat
  | TimerFires nat
  | SendFailed nat string
  | CallOnError
  | CallConnectInvalid string

definition set_ready :: "nat \<Rightarrow> ready_state \<Rightarrow> client \<Rightarrow> client" where
  "set_ready sid r c =
     (if sid < length (sockets c)
      then c\<lparr>sockets := (sockets c)[sid := (sockets c ! sid)\<lparr>readyState := r\<rparr>]\<rparr>
      else c)"

fun step :: "event \<Rightarrow> client \<Rightarrow> client" where
  "step CallConnect c = connect c"
| "step CallDisconnect c = disconnect c"
| "step (CallSendCommand rid cmd timeoutMs) c = sendCommand rid cmd timeoutMs c"
| "step (WsOpen sid) c = on_open sid (set_ready sid OPEN c)"
| "step (WsMessage sid d) c = on_message sid d c"
| "step (WsError sid err) c = on_error sid err (set_ready sid CLOSING c)"
| "step (WsClose sid) c = on_close sid (set_ready sid CLOSED c)"
| "step (TimerFires h) c = timer_fires h c"
| "step (SendFailed i err) c = send_failed i err c"
| "step CallOnError c = c\<lparr>errorListener := True\<rparr>"
| "step (CallConnectInvalid err) c = connect_invalid err c"

fun run :: "event list \<Rightarrow> client \<Rightarrow> client" where
  "run [] c = c"
| "run (e # es) c = run es (step e c)"

text \<open>The delays of the reconnect timers armed so far, oldest first.\<close>

fun reconnect_delays :: "(timer \<times> timer_status) list \<Rightarrow> nat list" where
  "reconnect_delays [] = []"
| "reconnect_delays ((ReconnectTimer d, st) # ts) = d # reconnect_delays ts"
| "reconnect_delays ((RequestTimer rid k ms, st) # ts) = reconnect_delays ts"

section \<open>config.ts: defaults from the environment\<close>

text \<open>
  What a status reply is made of, before \<^verbatim>\<open>JSON.stringify\<close> renders it.
\<close>

datatype json = JNull | JBool bool | JNumber port | JString string | JObject "(string \<times> json) list"

text \<open>
  The environment of the process: the three variables the code reads, and the two
  functions of the JavaScript library it calls on them, \<^verbatim>\<open>parseInt(_, 10)\<close>, whose result
  may be \<^verbatim>\<open>NaN\<close>, and \<^verbatim>\<open>JSON.stringify\<close>.
\<close>

record env =
  MCP_BRIDGE_HOST :: "string option"
  TAURI_DEV_HOST :: "string option"
  MCP_BRIDGE_PORT :: "string option"
  parseInt10 :: "string \<Rightarrow> port"
  JSON_stringify :: "json \<Rightarrow> string"

text \<open>A variable is truthy when it is set and not the empty string.\<close>

definition truthy :: "string option \<Rightarrow> bool" where
  "truthy v = (case v of None \<Rightarrow> False | Some x \<Rightarrow> x \<noteq> [])"

definition getDefaultHost :: "env \<Rightarrow> host" where
  "getDefaultHost e =
     (case MCP_BRIDGE_HOST e of
        Some h \<Rightarrow> if h \<noteq> [] then h
                  else (case TAURI_DEV_HOST e of
                          Some t \<Rightarrow> if t \<noteq> [] then t else ''localhost''
                        | None \<Rightarrow> ''localhost'')
      | None \<Rightarrow> (case TAURI_DEV_HOST e of
                   Some t \<Rightarrow> if t \<noteq> [] then t else ''localhost''
                 | None \<Rightarrow> ''localhost''))"

definition getDefaultPort :: "env \<Rightarrow> port" where
  "getDefaultPort e =
     (case MCP_BRIDGE_PORT e of
        Some p \<Rightarrow> if p \<noteq> [] then parseInt10 e p else Port 9223
      | None \<Rightarrow> Port 9223)"

section \<open>The network, and the trace of what a call does to it\<close>

text \<open>
  What becomes of one connection attempt, that is of one \<^verbatim>\<open>new WebSocket(url)\<close>: the
  constructor throws because the URL is not valid (with the message of the exception); or
  the socket reports \<^verbatim>\<open>open\<close>, or \<^verbatim>\<open>error\<close> (with the error), so many milliseconds after it
  was made; or it never reports anything. The network may answer differently each time:
  it is asked with the number of entries of the trace so far.
\<close>

datatype conn_outcome = Invalid string | Opens nat | Errors nat string | Silent

type_synonym network = "nat \<Rightarrow> host \<Rightarrow> port \<Rightarrow> conn_outcome"

text \<open>
  The trace: a call of \<^verbatim>\<open>tryConnect\<close>, a socket dialled by \<^verbatim>\<open>connectToPort\<close> or by
  \<^verbatim>\<open>connectPlugin\<close>, a socket dialled by a probe of the port scan, and an exception that a
  handler of the client that dialled has thrown to the runtime. The runtime ends the
  process on such an exception; where the entry is followed by more, the exception is
  thrown later than the code that wrote what follows, as a late error of a probe is.
\<close>

datatype effect = TryConnect host port | Dial host port | Probe host port | Uncaught string

text \<open>
  A client that is not connected calls \<^verbatim>\<open>connect\<close>, and the socket reports what the network
  has for it. \<open>awaited k\<close> is the state of the \<open>k\<close>-th promise that \<^verbatim>\<open>connect\<close> returned,
  \<open>settles_within ms\<close> says whether the attempt is over before a timer of \<open>ms\<close> milliseconds,
  armed together with it, fires.
\<close>

definition attempt :: "conn_outcome \<Rightarrow> client \<Rightarrow> client" where
  "attempt outcome c =
     (case outcome of
        Invalid msg \<Rightarrow> step (CallConnectInvalid msg) c
      | Opens t \<Rightarrow> step (WsOpen (length (sockets c))) (step CallConnect c)
      | Errors t err \<Rightarrow> step (WsError (length (sockets c)) err) (step CallConnect c)
      | Silent \<Rightarrow> step CallConnect c)"

definition awaited :: "nat \<Rightarrow> client \<Rightarrow> unit promise" where
  "awaited k c = (if k < length (connects c) then connects c ! k else Unsettled)"

definition settles_within :: "nat \<Rightarrow> conn_outcome \<Rightarrow> bool" where
  "settles_within ms outcome =
     (case outcome of
        Invalid msg \<Rightarrow> True
      | Opens t \<Rightarrow> t < ms
      | Errors t err \<Rightarrow> t < ms
      | Silent \<Rightarrow> False)"

section \<open>app-discovery.ts: AppDiscovery\<close>

record AppInstance =
  a_host :: host
  a_port :: port
  available :: bool

record SessionInfo =
  appId :: string
  s_name :: string
  s_host :: host
  s_port :: port
  s_client :: "client option"
  connected :: bool

text \<open>
  \<^verbatim>\<open>_activeSessions\<close> is a map in insertion order, kept as an association list.
  \<^verbatim>\<open>_maxPorts\<close> is a private field initialised to 100 and never assigned.
\<close>

record AppDiscovery =
  activeSessions :: "(string \<times> SessionInfo) list"
  d_host :: host
  basePort :: port

definition maxPorts :: nat where
  "maxPorts = 100"

definition new_AppDiscovery :: "env \<Rightarrow> host option \<Rightarrow> port option \<Rightarrow> AppDiscovery" where
  "new_AppDiscovery e h b =
     \<lparr>activeSessions = [],
      d_host = (case h of Some x \<Rightarrow> x | None \<Rightarrow> getDefaultHost e),
      basePort = (case b of Some x \<Rightarrow> x | None \<Rightarrow> getDefaultPort e)\<rparr>"

text \<open>
  \<^verbatim>\<open>_isPortInUse\<close>: a new client, to which nobody listens, connects, racing a timer of
  100 ms. If the attempt is over first, the port is in use when the promise of \<^verbatim>\<open>connect\<close>
  is resolved and not in use when it is rejected; when the handler of \<^verbatim>\<open>error\<close> threw
  instead of rejecting it, the exception has gone to the runtime, which ends the process,
  and the call never returns (\<open>None\<close>). If the timer fires first, the port is not in use,
  and the client is left as it is; an error that its socket reports later is thrown in the
  same way, and is in the trace.
\<close>

definition isPortInUse ::
  "network \<Rightarrow> port \<Rightarrow> AppDiscovery \<times> effect list \<Rightarrow> bool option \<times> effect list" where
  "isPortInUse net p = (\<lambda>(d, fx).
     (let client = PluginClient (d_host d) p;
          outcome = net (length fx) (d_host d) p;
          c1 = attempt outcome client;
          fx' = fx @ [Probe (d_host d) p] @ map Uncaught (uncaught c1)
      in if settles_within 100 outcome
         then (case awaited 0 c1 of
                 Resolved u \<Rightarrow> (Some True, fx')
               | Rejected err \<Rightarrow> (Some False, fx')
               | Unsettled \<Rightarrow> (None, fx'))
         else (Some False, fx')))"

text \<open>The loop of \<^verbatim>\<open>discoverApps\<close>, from \<open>offset\<close> on; it ends where a probe never returns.\<close>

function discover_loop ::
  "network \<Rightarrow> AppDiscovery \<Rightarrow> nat \<Rightarrow> AppInstance list \<times> effect list
     \<Rightarrow> AppInstance list option \<times> effect list"
where
  "discover_loop net d offset (apps, fx) =
     (if offset < maxPorts
      then (let p = port_plus (basePort d) offset;
                (inUse, fx') = isPortInUse net p (d, fx)
            in case inUse of
                 None \<Rightarrow> (None, fx')
               | Some b \<Rightarrow>
                   discover_loop net d (offset + 1)
                     (if b then apps @ [\<lparr>a_host = d_host d, a_port = p, available = True\<rparr>]
                      else apps, fx'))
      else (Some apps, fx))"
  by pat_completeness auto
termination
  by (relation "measure (\<lambda>(net, d, offset, acc). maxPorts - offset)") auto

declare discover_loop.simps [simp del]

definition discoverApps ::
  "network \<Rightarrow> AppDiscovery \<times> effect list \<Rightarrow> AppInstance list option \<times> effect list" where
  "discoverApps net = (\<lambda>(d, fx). discover_loop net d 0 ([], fx))"

text \<open>
  \<^verbatim>\<open>getFirstAvailableApp\<close>: \<open>Some None\<close> is \<^verbatim>\<open>null\<close>, \<open>None\<close> is a call that never returns.
\<close>

definition getFirstAvailableApp ::
  "network \<Rightarrow> AppDiscovery \<times> effect list \<Rightarrow> AppInstance option option \<times> effect list" where
  "getFirstAvailableApp net dfx =
     (let (found, fx') = discoverApps net dfx
      in (case found of
            None \<Rightarrow> None
          | Some apps \<Rightarrow> Some (case apps of [] \<Rightarrow> None | a # rest \<Rightarrow> Some a),
          fx'))"

definition sessionId :: "host \<Rightarrow> port \<Rightarrow> string" where
  "sessionId h p = h @ ''_'' @ port_to_string p"

text \<open>
  \<^verbatim>\<open>connectToPort\<close>. A session of the registry that is marked connected is returned as it
  is, without a connection; otherwise a new client, to which nobody listens, dials. The
  result is the state in which the promise of the call ends: resolved when the promise of
  \<^verbatim>\<open>connect\<close> is, rejected by the \<^verbatim>\<open>catch\<close> when that promise is rejected, and \<open>Unsettled\<close>
  when it is never settled, because the socket never reports or because the handler of
  \<^verbatim>\<open>error\<close> threw instead of rejecting it.
\<close>

definition connectToPort ::
  "network \<Rightarrow> port \<Rightarrow> string option \<Rightarrow> host option \<Rightarrow> AppDiscovery \<times> effect list
     \<Rightarrow> SessionInfo promise \<times> AppDiscovery \<times> effect list" where
  "connectToPort net p appName hostArg = (\<lambda>(d, fx).
     (let targetHost = (case hostArg of Some h \<Rightarrow> h | None \<Rightarrow> d_host d);
          sid = sessionId targetHost p;
          dial =
            (let client = PluginClient targetHost p;
                 c1 = attempt (net (length fx) targetHost p) client;
                 fx' = fx @ [Dial targetHost p] @ map Uncaught (uncaught c1);
                 session =
                   \<lparr>appId = sid,
                    s_name = (if truthy appName then (case appName of Some n \<Rightarrow> n | None \<Rightarrow> [])
                              else ''Tauri App ('' @ targetHost @ '':'' @ port_to_string p @ '')''),
                    s_host = targetHost, s_port = p,
                    s_client = Some c1,
                    connected = True\<rparr>
             in case awaited 0 c1 of
                  Resolved u \<Rightarrow>
                    (Resolved session,
                     d\<lparr>activeSessions := AList.update sid session (activeSessions d)\<rparr>, fx')
                | Rejected err \<Rightarrow>
                    (Rejected (''Failed to connect to '' @ targetHost @ '':'' @ port_to_string p
                               @ '': '' @ err), d, fx')
                | Unsettled \<Rightarrow> (Unsettled, d, fx'))
      in case map_of (activeSessions d) sid of
           Some existing \<Rightarrow> if connected existing then (Resolved existing, d, fx) else dial
         | None \<Rightarrow> dial))"

text \<open>
  \<^verbatim>\<open>disconnectAll\<close> disconnects the client of every session and clears the registry; the
  clients it disconnects are referenced from nowhere afterwards.
\<close>

definition disconnectAll :: "AppDiscovery \<Rightarrow> AppDiscovery" where
  "disconnectAll d = d\<lparr>activeSessions := []\<rparr>"

section \<open>The state of the modules\<close>

record current =
  cs_name :: string
  cs_host :: host
  cs_port :: port

text \<open>
  The module variables: \<^verbatim>\<open>pluginClient\<close> of plugin-client.ts, \<^verbatim>\<open>appDiscovery\<close> and
  \<^verbatim>\<open>currentSession\<close> of session-manager.ts, the initialisation flag of the webview executor,
  and the trace.
\<close>

record modules =
  pluginClient :: "client option"
  appDiscovery :: "AppDiscovery option"
  currentSession :: "current option"
  initialized :: bool
  effects :: "effect list"

definition fresh_modules :: modules where
  "fresh_modules =
     \<lparr>pluginClient = None, appDiscovery = None, currentSession = None,
      initialized = False, effects = []\<rparr>"

subsection \<open>plugin-client.ts: the singleton\<close>

definition getPluginClient :: "env \<Rightarrow> host option \<Rightarrow> port option \<Rightarrow> modules \<Rightarrow> client \<times> modules" where
  "getPluginClient e hostArg portArg s =
     (let resolvedHost = (case hostArg of Some h \<Rightarrow> h | None \<Rightarrow> getDefaultHost e);
          resolvedPort = (case portArg of Some p \<Rightarrow> p | None \<Rightarrow> getDefaultPort e)
      in case pluginClient s of
           None \<Rightarrow> (let c = PluginClient resolvedHost resolvedPort
                    in (c, s\<lparr>pluginClient := Some c\<rparr>))
         | Some c \<Rightarrow> (c, s))"

text \<open>
  \<^verbatim>\<open>resetPluginClient\<close> disconnects the singleton and drops it; the module keeps no
  reference to the client it disconnected.
\<close>

definition resetPluginClient :: "modules \<Rightarrow> modules" where
  "resetPluginClient s =
     (case pluginClient s of
        None \<Rightarrow> s
      | Some c \<Rightarrow> s\<lparr>pluginClient := None\<rparr>)"

text \<open>
  \<^verbatim>\<open>connectPlugin\<close>: the singleton connects unless its channel is open, and the call ends
  with the promise of that \<^verbatim>\<open>connect\<close>.
\<close>

definition connectPlugin ::
  "env \<Rightarrow> network \<Rightarrow> host option \<Rightarrow> port option \<Rightarrow> modules \<Rightarrow> unit promise \<times> modules" where
  "connectPlugin e net hostArg portArg s =
     (let (c, s1) = getPluginClient e hostArg portArg s
      in if isConnected c then (Resolved (), s1)
         else (let c1 = attempt (net (length (effects s1)) (host_c c) (port_c c)) c
               in (awaited (length (connects c)) c1,
                   s1\<lparr>pluginClient := Some c1,
                      effects := effects s1 @ [Dial (host_c c) (port_c c)] @
                                 map Uncaught (drop (length (uncaught c)) (uncaught c1))\<rparr>)))"

definition disconnectPlugin :: "env \<Rightarrow> modules \<Rightarrow> modules" where
  "disconnectPlugin e s =
     (let (c, s1) = getPluginClient e None None s
      in s1\<lparr>pluginClient := Some (disconnect c)\<rparr>)"

subsection \<open>session-manager.ts\<close>

text \<open>
  One call of \<^verbatim>\<open>manageDriverSession\<close> runs to its end before the next one starts: the
  embedding does not interleave two calls at their \<^verbatim>\<open>await\<close>s.
\<close>

definition getAppDiscovery :: "env \<Rightarrow> host \<Rightarrow> modules \<Rightarrow> AppDiscovery \<times> modules" where
  "getAppDiscovery e h s =
     (let made = new_AppDiscovery e (Some h) None
      in case appDiscovery s of
           None \<Rightarrow> (made, s\<lparr>appDiscovery := Some made\<rparr>)
         | Some d \<Rightarrow> if d_host d \<noteq> h then (made, s\<lparr>appDiscovery := Some made\<rparr>) else (d, s))"

definition isPortExplicitlyConfigured :: "env \<Rightarrow> bool" where
  "isPortExplicitlyConfigured e = truthy (MCP_BRIDGE_PORT e)"

definition tryConnect :: "env \<Rightarrow> network \<Rightarrow> host \<Rightarrow> port \<Rightarrow> modules \<Rightarrow> current promise \<times> modules" where
  "tryConnect e net h p s =
     (let (discovery, s1) = getAppDiscovery e h (s\<lparr>effects := effects s @ [TryConnect h p]\<rparr>);
          (r, d', fx') = connectToPort net p None (Some h) (discovery, effects s1);
          s2 = s1\<lparr>appDiscovery := Some d', effects := fx'\<rparr>
      in (case r of
            Unsettled \<Rightarrow> Unsettled
          | Rejected err \<Rightarrow> Rejected err
          | Resolved session \<Rightarrow>
              Resolved \<lparr>cs_name = s_name session, cs_host = s_host session,
                        cs_port = s_port session\<rparr>,
          s2))"

text \<open>
  Modelled from the spec: \<^verbatim>\<open>resetInitialization\<close> of webview-executor.js, which is not among
  the sources; the spec has \<^verbatim>\<open>stop\<close> clear the initialization state owned by collaborator
  components.
\<close>

definition resetInitialization :: "modules \<Rightarrow> modules" where
  "resetInitialization s = s\<lparr>initialized := False\<rparr>"

datatype action = Start | Stop | Status

definition connected_reply :: "current \<Rightarrow> json" where
  "connected_reply cs =
     JObject [(''connected'', JBool True), (''app'', JString (cs_name cs)),
              (''host'', JString (cs_host cs)), (''port'', JNumber (cs_port cs))]"

definition not_connected_reply :: json where
  "not_connected_reply =
     JObject [(''connected'', JBool False), (''app'', JNull), (''host'', JNull), (''port'', JNull)]"

definition started_message :: "string \<Rightarrow> string \<Rightarrow> port \<Rightarrow> string" where
  "started_message app h p =
     ''Session started with app: '' @ app @ '' ('' @ h @ '':'' @ port_to_string p @ '')''"

definition explicit_failure_message :: "host \<Rightarrow> port \<Rightarrow> string" where
  "explicit_failure_message h p =
     ''Failed to connect to Tauri app at '' @ h @ '':'' @ port_to_string p @ ''. '' @
     ''Port '' @ port_to_string p @ '' was explicitly configured - auto-discovery disabled. '' @
     ''Ensure your Tauri app is running with the MCP Bridge plugin on this port.''"

definition degraded_message :: "host \<Rightarrow> port \<Rightarrow> string" where
  "degraded_message h p =
     ''Session started (native IPC mode - no Tauri app found at localhost or '' @ h @ '':'' @
     port_to_string p @ '')''"

text \<open>
  The \<^verbatim>\<open>start\<close> branch of \<^verbatim>\<open>manageDriverSession\<close>, one definition for each strategy and each
  calling the next where the source falls through. The result is \<open>None\<close> when the call
  never returns: a socket it awaits never reports, or the handler of its \<^verbatim>\<open>error\<close> threw and
  left the promise the call awaits unsettled.
\<close>

definition strategy4 :: "env \<Rightarrow> network \<Rightarrow> host \<Rightarrow> port \<Rightarrow> modules \<Rightarrow> string option \<times> modules" where
  "strategy4 e net configuredHost configuredPort s =
     (let (r, s1) = tryConnect e net configuredHost configuredPort (resetPluginClient s)
      in case r of
           Resolved session \<Rightarrow>
             (Some (started_message (cs_name session) (cs_host session) (cs_port session)),
              s1\<lparr>currentSession := Some session\<rparr>)
         | Rejected err \<Rightarrow>
             (Some (degraded_message configuredHost configuredPort), s1\<lparr>currentSession := None\<rparr>)
         | Unsettled \<Rightarrow> (None, s1))"

definition after_discovery ::
  "env \<Rightarrow> network \<Rightarrow> host \<Rightarrow> port \<Rightarrow> bool \<Rightarrow> modules \<Rightarrow> string option \<times> modules" where
  "after_discovery e net configuredHost configuredPort portIsExplicit s =
     (if portIsExplicit
      then (Some (explicit_failure_message configuredHost configuredPort),
            s\<lparr>currentSession := None\<rparr>)
      else strategy4 e net configuredHost configuredPort s)"

definition strategy3 ::
  "env \<Rightarrow> network \<Rightarrow> host \<Rightarrow> port \<Rightarrow> bool \<Rightarrow> modules \<Rightarrow> string option \<times> modules" where
  "strategy3 e net configuredHost configuredPort portIsExplicit s =
     (if \<not> portIsExplicit
      then (let (localhostDiscovery, s1) = getAppDiscovery e ''localhost'' s;
                (firstApp, fx) = getFirstAvailableApp net (localhostDiscovery, effects s1);
                s2 = s1\<lparr>effects := fx\<rparr>
            in case firstApp of
                 None \<Rightarrow> (None, s2)
               | Some None \<Rightarrow> after_discovery e net configuredHost configuredPort portIsExplicit s2
               | Some (Some app) \<Rightarrow>
                   (let (r, s3) = tryConnect e net ''localhost'' (a_port app) (resetPluginClient s2)
                    in case r of
                         Resolved session \<Rightarrow>
                           (Some (started_message (cs_name session) ''localhost'' (cs_port session)),
                            s3\<lparr>currentSession := Some session\<rparr>)
                       | Rejected err \<Rightarrow>
                           after_discovery e net configuredHost configuredPort portIsExplicit s3
                       | Unsettled \<Rightarrow> (None, s3)))
      else after_discovery e net configuredHost configuredPort portIsExplicit s)"

definition strategy2 ::
  "env \<Rightarrow> network \<Rightarrow> host \<Rightarrow> port \<Rightarrow> bool \<Rightarrow> modules \<Rightarrow> string option \<times> modules" where
  "strategy2 e net configuredHost configuredPort portIsExplicit s =
     (let (r, s1) = tryConnect e net configuredHost configuredPort s
      in case r of
           Resolved session \<Rightarrow>
             (Some (started_message (cs_name session) (cs_host session) (cs_port session)),
              s1\<lparr>currentSession := Some session\<rparr>)
         | Rejected err \<Rightarrow> strategy3 e net configuredHost configuredPort portIsExplicit s1
         | Unsettled \<Rightarrow> (None, s1))"

definition strategy1 ::
  "env \<Rightarrow> network \<Rightarrow> host \<Rightarrow> port \<Rightarrow> bool \<Rightarrow> modules \<Rightarrow> string option \<times> modules" where
  "strategy1 e net configuredHost configuredPort portIsExplicit s =
     (if configuredHost \<noteq> ''localhost'' \<and> configuredHost \<noteq> ''127.0.0.1''
      then (let (r, s1) = tryConnect e net ''localhost'' configuredPort s
            in case r of
                 Resolved session \<Rightarrow>
                   (Some (started_message (cs_name session) ''localhost'' (cs_port session)),
                    s1\<lparr>currentSession := Some session\<rparr>)
               | Rejected err \<Rightarrow> strategy2 e net configuredHost configuredPort portIsExplicit s1
               | Unsettled \<Rightarrow> (None, s1))
      else strategy2 e net configuredHost configuredPort portIsExplicit s)"

definition manageDriverSession ::
  "env \<Rightarrow> network \<Rightarrow> action \<Rightarrow> host option \<Rightarrow> port option \<Rightarrow> modules \<Rightarrow> string option \<times> modules"
where
  "manageDriverSession e net act hostArg portArg s =
     (case act of
        Status \<Rightarrow>
          (let (client, s1) = getPluginClient e None None s
           in case currentSession s1 of
                Some cs \<Rightarrow>
                  if isConnected client
                  then (Some (JSON_stringify e (connected_reply cs)), s1)
                  else (Some (JSON_stringify e not_connected_reply), s1)
              | None \<Rightarrow> (Some (JSON_stringify e not_connected_reply), s1))
      | Start \<Rightarrow>
          (let s1 = resetPluginClient s;
               configuredHost = (case hostArg of Some h \<Rightarrow> h | None \<Rightarrow> getDefaultHost e);
               configuredPort = (case portArg of Some p \<Rightarrow> p | None \<Rightarrow> getDefaultPort e);
               portIsExplicit = (portArg \<noteq> None \<or> isPortExplicitlyConfigured e)
           in strategy1 e net configuredHost configuredPort portIsExplicit s1)
      | Stop \<Rightarrow>
          (let s1 = (case appDiscovery s of
                       None \<Rightarrow> s
                     | Some d \<Rightarrow> s\<lparr>appDiscovery := Some (disconnectAll d)\<rparr>);
               s2 = resetInitialization (resetPluginClient s1)
           in (Some ''Session stopped'', s2\<lparr>currentSession := None\<rparr>)))"

section \<open>Notions used by the properties of the client\<close>

text \<open>
  Events that set the retry counter by themselves: a socket opening (the counter goes to 0)
  and an explicit \<^verbatim>\<open>disconnect\<close> (the counter goes to its maximum).
\<close>

fun resets :: "event \<Rightarrow> bool" where
  "resets (WsOpen sid) = True"
| "resets CallDisconnect = True"
| "resets e = False"

text \<open>
  The invariant of the client. The timeout timer of a call names the promise of that call;
  a promise is named by at most one timer, and is unsettled as long as its timer is armed.
  Every entry of the pending map and every frame written refers to such a timer.
\<close>

fun req_call :: "timer \<Rightarrow> nat option" where
  "req_call (RequestTimer rid k ms) = Some k"
| "req_call (ReconnectTimer d) = None"

definition timers_ok :: "(timer \<times> timer_status) list \<Rightarrow> 'a promise list \<Rightarrow> bool" where
  "timers_ok ts ps \<longleftrightarrow>
     (\<forall>h < length ts. \<forall>k. req_call (fst (ts ! h)) = Some k \<longrightarrow>
        k < length ps \<and> (snd (ts ! h) = Armed \<longrightarrow> ps ! k = Unsettled) \<and>
        (\<forall>h' < length ts. req_call (fst (ts ! h')) = Some k \<longrightarrow> h' = h))"

definition refs_ok :: "(timer \<times> timer_status) list \<Rightarrow> nat \<Rightarrow> nat \<Rightarrow> bool" where
  "refs_ok ts h k \<longleftrightarrow> h < length ts \<and> req_call (fst (ts ! h)) = Some k"

definition client_inv :: "client \<Rightarrow> bool" where
  "client_inv c \<longleftrightarrow>
     timers_ok (timers c) (promises c) \<and>
     (\<forall>i p. pendingRequests c i = Some p \<longrightarrow> refs_ok (timers c) (timeout p) (settles p)) \<and>
     (\<forall>w \<in> set (writes c). refs_ok (timers c) (w_timer w) (w_call w))"

definition reachable :: "client \<Rightarrow> bool" where
  "reachable c \<longleftrightarrow> (\<exists>es h p. c = run es (PluginClient h p))"

text \<open>
  For the request with id \<open>rid\<close>, timeout timer \<open>h\<close> and write \<open>j\<close>: the events that leave
  it waiting are all but a response carrying \<open>rid\<close>, the failure of its write, and its
  timer firing. \<open>waiting\<close> says that the timer is armed and that no other entry of the
  pending map and no other write refers to it.
\<close>

fun undisturbed :: "string \<Rightarrow> nat \<Rightarrow> nat \<Rightarrow> event \<Rightarrow> bool" where
  "undisturbed rid h j (WsMessage sid (Parsed m)) = (resp_id m \<noteq> Some rid)"
| "undisturbed rid h j (TimerFires g) = (g \<noteq> h)"
| "undisturbed rid h j (SendFailed i err) = (i \<noteq> j)"
| "undisturbed rid h j e = True"

definition waiting :: "string \<Rightarrow> nat \<Rightarrow> nat \<Rightarrow> nat \<Rightarrow> nat \<Rightarrow> client \<Rightarrow> bool" where
  "waiting rid k ms h j c \<longleftrightarrow>
     h < length (timers c) \<and> timers c ! h = (RequestTimer rid k ms, Armed) \<and>
     (\<forall>i p. pendingRequests c i = Some p \<and> timeout p = h \<longrightarrow> i = rid) \<and>
     (\<forall>i < length (writes c). w_timer (writes c ! i) = h \<longrightarrow> i = j)"

text \<open>Issuing a batch of commands, and delivering a parsed message on a socket.\<close>

fun send_event :: "string \<times> PluginCommand \<times> nat \<Rightarrow> event" where
  "send_event (rid, cmd, timeoutMs) = CallSendCommand rid cmd timeoutMs"

definition deliver :: "nat \<Rightarrow> PluginResponse \<Rightarrow> event" where
  "deliver sid r = WsMessage sid (Parsed r)"

text \<open>Concrete clients and traces on which the properties are evaluated.\<close>

definition cmd0 :: PluginCommand where
  "cmd0 = \<lparr>cmd_id = None, command = ''get_window_info'', args = None\<rparr>"

definition just_opened :: client where
  "just_opened = run [CallConnect, WsOpen 0] (PluginClient ''localhost'' (Port 9223))"

definition three_calls :: "(string \<times> PluginCommand \<times> nat) list" where
  "three_calls = [(''req_a'', cmd0, 5000), (''req_b'', cmd0, 5000), (''req_c'', cmd0, 100)]"

definition reply :: "string \<Rightarrow> string \<Rightarrow> PluginResponse" where
  "reply i d = \<lparr>resp_id = Some i, success = True, data = Some d, error = None\<rparr>"

definition reversed_replies :: "PluginResponse list" where
  "reversed_replies = [reply ''req_c'' ''3'', reply ''req_b'' ''2'', reply ''req_a'' ''1'']"

definition five_failures :: "event list" where
  "five_failures = [WsClose 0, TimerFires 0, WsError 1 ''ECONNREFUSED'', WsClose 1, TimerFires 1, WsError 2 ''ECONNREFUSED'', WsClose 2,
     TimerFires 2, WsError 3 ''ECONNREFUSED'', WsClose 3, TimerFires 3, WsError 4 ''ECONNREFUSED'', WsClose 4, TimerFires 4, WsError 5 ''ECONNREFUSED'', WsClose 5]"

definition closed_with_pending :: client where
  "closed_with_pending = run [CallConnect, WsOpen 0, CallSendCommand ''req_1'' cmd0 5000, CallSendCommand ''req_2'' cmd0 5000, WsClose 0] (PluginClient ''localhost'' (Port 9223))"

definition reconnect_after_disconnect :: client where
  "reconnect_after_disconnect = run [CallConnect, WsOpen 0, WsClose 0, CallDisconnect, TimerFires 0] (PluginClient ''localhost'' (Port 9223))"

section \<open>Notions used by the properties of the session manager\<close>

text \<open>
  The host and port that \<^verbatim>\<open>start\<close> works with, and whether it takes the port as explicit.
\<close>

definition configured_host :: "env \<Rightarrow> host option \<Rightarrow> host" where
  "configured_host e hostArg = (case hostArg of Some h \<Rightarrow> h | None \<Rightarrow> getDefaultHost e)"

definition configured_port :: "env \<Rightarrow> port option \<Rightarrow> port" where
  "configured_port e portArg = (case portArg of Some p \<Rightarrow> p | None \<Rightarrow> getDefaultPort e)"

definition port_is_explicit :: "env \<Rightarrow> port option \<Rightarrow> bool" where
  "port_is_explicit e portArg \<longleftrightarrow> portArg \<noteq> None \<or> isPortExplicitlyConfigured e"

text \<open>
  \<open>cached s h p\<close>: the discovery object of the module is the one for host \<open>h\<close> and its
  registry holds a session for \<open>(h, p)\<close> that is marked connected; \<^verbatim>\<open>tryConnect\<close> then
  returns that session and dials nothing.
\<close>

definition cached :: "modules \<Rightarrow> host \<Rightarrow> port \<Rightarrow> bool" where
  "cached s h p =
     (case appDiscovery s of
        None \<Rightarrow> False
      | Some d \<Rightarrow>
          d_host d = h \<and>
          (case map_of (activeSessions d) (sessionId h p) of
             None \<Rightarrow> False
           | Some x \<Rightarrow> connected x))"

text \<open>
  The invariant of the registry: every session it holds is on the host of its discovery
  object. It holds initially and every call of \<^verbatim>\<open>manageDriverSession\<close> keeps it.
\<close>

definition registry_ok :: "modules \<Rightarrow> bool" where
  "registry_ok s =
     (case appDiscovery s of
        None \<Rightarrow> True
      | Some d \<Rightarrow> list_all (\<lambda>(k, x). s_host x = d_host d) (activeSessions d))"

text \<open>
  The result of \<^verbatim>\<open>tryConnect\<close> from the result of \<^verbatim>\<open>connectToPort\<close>, and the session that
  \<^verbatim>\<open>connectToPort\<close> registers after a dial that opened.
\<close>

definition as_current :: "SessionInfo promise \<Rightarrow> current promise" where
  "as_current r =
     (case r of
        Unsettled \<Rightarrow> Unsettled
      | Rejected err \<Rightarrow> Rejected err
      | Resolved session \<Rightarrow>
          Resolved \<lparr>cs_name = s_name session, cs_host = s_host session, cs_port = s_port session\<rparr>)"

definition dialled_session :: "host \<Rightarrow> port \<Rightarrow> SessionInfo" where
  "dialled_session h p =
     \<lparr>appId = sessionId h p,
      s_name = ''Tauri App ('' @ h @ '':'' @ port_to_string p @ '')'',
      s_host = h, s_port = p,
      s_client = Some (attempt (Opens 0) (PluginClient h p)),
      connected = True\<rparr>"

text \<open>
  In a scan that starts when the trace is \<open>fx\<close> and in which no probe adds an exception to
  the trace, the probe of the \<open>i\<close>-th port of the range is the \<open>i\<close>-th entry that the scan
  adds; \<open>probe_finds\<close> says that the connection of that probe opens in less than 100 ms.
\<close>

definition probe_finds :: "network \<Rightarrow> AppDiscovery \<times> effect list \<Rightarrow> nat \<Rightarrow> bool" where
  "probe_finds net = (\<lambda>(d, fx) i.
     case net (length fx + i) (d_host d) (port_plus (basePort d) i) of
       Opens t \<Rightarrow> t < 100
     | Invalid msg \<Rightarrow> False
     | Errors t err \<Rightarrow> False
     | Silent \<Rightarrow> False)"

text \<open>The trace only grows.\<close>

definition grows :: "modules \<Rightarrow> modules \<Rightarrow> bool" where
  "grows s s' \<longleftrightarrow> (\<exists>rest. effects s' = effects s @ rest)"

text \<open>Concrete environments, networks and module states on which the properties are evaluated.\<close>

definition env0 :: env where
  "env0 = \<lparr>MCP_BRIDGE_HOST = None, TAURI_DEV_HOST = None, MCP_BRIDGE_PORT = None,
            parseInt10 = (\<lambda>s. NaN), JSON_stringify = (\<lambda>j. ''{}'')\<rparr>"

definition env_port_abc :: env where
  "env_port_abc = env0\<lparr>MCP_BRIDGE_PORT := Some ''abc''\<rparr>"

definition refuse :: network where
  "refuse = (\<lambda>n h p. Errors 1 ''Error: connect ECONNREFUSED'')"

definition only_loopback_9223 :: network where
  "only_loopback_9223 =
     (\<lambda>n h p. if h = ''localhost'' \<and> p = Port 9223 then Opens 5
               else Errors 1 ''Error: connect ECONNREFUSED'')"

definition silent_but_9224_9230 :: network where
  "silent_but_9224_9230 =
     (\<lambda>n h p. if h = ''localhost'' \<and> (p = Port 9224 \<or> p = Port 9230) then Opens 5 else Silent)"

definition refused_but_9224 :: network where
  "refused_but_9224 =
     (\<lambda>n h p. if h = ''localhost'' \<and> p = Port 9224 then Opens 5
               else Errors 1 ''Error: connect ECONNREFUSED'')"

definition invalid_url :: network where
  "invalid_url = (\<lambda>n h p. Invalid ''SyntaxError: Invalid URL'')"

definition other_client :: client where
  "other_client = PluginClient ''192.168.1.100'' (Port 9225)"

definition scan_from_9223 :: "AppDiscovery \<times> effect list" where
  "scan_from_9223 = (new_AppDiscovery env0 (Some ''localhost'') None, [])"

definition attached_modules :: modules where
  "attached_modules =
     fresh_modules
       \<lparr>pluginClient := Some just_opened,
        currentSession :=
          Some \<lparr>cs_name = ''Tauri App (localhost:9223)'', cs_host = ''localhost'', cs_port = Port 9223\<rparr>\<rparr>"

section \<open>Properties of the PluginClient\<close>

lemmas client_defs =
  PluginClient_def connect_def isConnected_def on_open_def set_ready_def emit_def
  settle_connect_def settle_def sendCommand_def setTimeout_def on_close_def
  maxReconnectAttempts_def Let_def disconnect_def timer_fires_def on_error_def
  clearTimeout_def settle_call_def send_failed_def on_message_def close_socket_def
  buildWebSocketURL_def connect_invalid_def

lemma run_append: "run (es @ fs) c = run fs (run es c)"
  by (induction es arbitrary: c) simp_all

subsection \<open>Closing the channel and the pending requests\<close>

text \<open>
  The handler of \<^verbatim>\<open>close\<close> emits \<^verbatim>\<open>disconnected\<close>, forgets the socket and may arm a
  reconnect timer; it never touches \<^verbatim>\<open>_pendingRequests\<close>. After it, the pending-request map
  and the promises of all calls are what they were, and every timer armed before is still
  there in the state it had.
\<close>

lemma close_keeps_pending_requests:
  "pendingRequests (step (WsClose sid) c) = pendingRequests c \<and>
   promises (step (WsClose sid) c) = promises c \<and>
   take (length (timers c)) (timers (step (WsClose sid) c)) = timers c"
  by (simp add: on_close_def set_ready_def emit_def setTimeout_def Let_def)

text \<open>
  C1, on a connected client with two requests outstanding whose channel closes: both
  entries are still in the map, which is not cleared, and both promises are unsettled.
  Neither request is rejected at the close; each waits for its own timeout timer. The
  changelog of the package lists the rejection of pending requests on an unexpected close
  among the fixes of version 0.1.1.
\<close>

theorem close_rejects_nothing:
  "pendingRequests closed_with_pending ''req_1'' = Some \<lparr>settles = 0, timeout = 0\<rparr> \<and>
   pendingRequests closed_with_pending ''req_2'' = Some \<lparr>settles = 1, timeout = 1\<rparr> \<and>
   promises closed_with_pending = [Unsettled, Unsettled] \<and>
   map snd (timers closed_with_pending) = [Armed, Armed, Armed]"
  by (simp add: closed_with_pending_def client_defs)

subsection \<open>Reconnection\<close>

lemma reconnect_delays_append:
  "reconnect_delays (ts @ us) = reconnect_delays ts @ reconnect_delays us"
  by (induction ts rule: reconnect_delays.induct) simp_all

lemma reconnect_delays_restatus:
  "h < length ts \<Longrightarrow> reconnect_delays (ts[h := (fst (ts ! h), st)]) = reconnect_delays ts"
proof (induction ts arbitrary: h rule: reconnect_delays.induct)
  case 1
  then show ?case by simp
next
  case (2 d st' ts)
  then show ?case by (cases h) simp_all
next
  case (3 rid k ms st' ts)
  then show ?case by (cases h) simp_all
qed

lemma reconnect_delays_restatus':
  "h < length ts \<Longrightarrow> fst (ts ! h) = t \<Longrightarrow> reconnect_delays (ts[h := (t, st)]) = reconnect_delays ts"
  using reconnect_delays_restatus by blast

lemma clearTimeout_delays [simp]: "reconnect_delays (timers (clearTimeout h c)) = reconnect_delays (timers c)"
  by (simp add: clearTimeout_def reconnect_delays_restatus)

lemma clearTimeout_attempts [simp]: "reconnectAttempts (clearTimeout h c) = reconnectAttempts c"
  by (simp add: clearTimeout_def)

lemma connect_quiet: "reconnect_delays (timers (connect c)) = reconnect_delays (timers c) \<and> reconnectAttempts (connect c) = reconnectAttempts c"
  by (simp add: connect_def)

lemma connect_invalid_quiet: "reconnect_delays (timers (connect_invalid err c)) = reconnect_delays (timers c) \<and> reconnectAttempts (connect_invalid err c) = reconnectAttempts c"
  by (simp add: connect_invalid_def)

lemma on_message_quiet: "reconnect_delays (timers (on_message sid d c)) = reconnect_delays (timers c) \<and> reconnectAttempts (on_message sid d c) = reconnectAttempts c"
  by (auto simp: on_message_def emit_def settle_call_def split: inbound.splits option.splits)

lemma sendCommand_quiet: "reconnect_delays (timers (sendCommand rid cmd ms c)) = reconnect_delays (timers c) \<and> reconnectAttempts (sendCommand rid cmd ms c) = reconnectAttempts c"
  by (simp add: sendCommand_def setTimeout_def Let_def reconnect_delays_append)

lemma on_error_quiet: "reconnect_delays (timers (on_error sid err (set_ready sid r c))) = reconnect_delays (timers c) \<and> reconnectAttempts (on_error sid err (set_ready sid r c)) = reconnectAttempts c"
  by (simp add: on_error_def emit_def settle_connect_def set_ready_def)

lemma send_failed_quiet: "reconnect_delays (timers (send_failed i err c)) = reconnect_delays (timers c) \<and> reconnectAttempts (send_failed i err c) = reconnectAttempts c"
  by (simp add: send_failed_def settle_call_def Let_def)

lemma timer_fires_quiet: "reconnect_delays (timers (timer_fires h c)) = reconnect_delays (timers c) \<and> reconnectAttempts (timer_fires h c) = reconnectAttempts c"
  by (simp add: timer_fires_def settle_call_def Let_def connect_quiet reconnect_delays_restatus' split: timer.splits)

lemma on_close_delays:
  "reconnect_delays (timers (on_close sid (set_ready sid r c))) =
     reconnect_delays (timers c) @
       (if reconnectAttempts c < maxReconnectAttempts then [1000 * Suc (reconnectAttempts c)] else [])
   \<and> reconnectAttempts (on_close sid (set_ready sid r c)) =
       (if reconnectAttempts c < maxReconnectAttempts then Suc (reconnectAttempts c) else reconnectAttempts c)"
  by (simp add: on_close_def emit_def set_ready_def setTimeout_def Let_def reconnect_delays_append)

lemma step_delays:
  assumes "\<not> resets e" and "reconnectAttempts c \<le> maxReconnectAttempts"
  shows "reconnect_delays (timers (step e c)) =
           reconnect_delays (timers c) @
             map (\<lambda>n. 1000 * n) [Suc (reconnectAttempts c) ..< Suc (reconnectAttempts (step e c))]
         \<and> reconnectAttempts c \<le> reconnectAttempts (step e c)
         \<and> reconnectAttempts (step e c) \<le> maxReconnectAttempts"
proof (cases e)
  case (WsClose sid)
  then show ?thesis using assms(2) by (simp add: on_close_delays)
qed (use assms in \<open>simp_all add: connect_quiet on_message_quiet sendCommand_quiet on_error_quiet send_failed_quiet timer_fires_quiet connect_invalid_quiet\<close>)

lemma run_delays:
  assumes "\<forall>e \<in> set es. \<not> resets e" and "reconnectAttempts c \<le> maxReconnectAttempts"
  shows "reconnect_delays (timers (run es c)) =
           reconnect_delays (timers c) @
             map (\<lambda>n. 1000 * n) [Suc (reconnectAttempts c) ..< Suc (reconnectAttempts (run es c))]
         \<and> reconnectAttempts c \<le> reconnectAttempts (run es c)
         \<and> reconnectAttempts (run es c) \<le> maxReconnectAttempts"
  using assms
proof (induction es arbitrary: c)
  case Nil
  then show ?case by simp
next
  case (Cons e es)
  let ?a = "reconnectAttempts c" and ?b = "reconnectAttempts (step e c)"
  let ?d = "reconnectAttempts (run es (step e c))"
  have s: "reconnect_delays (timers (step e c)) =
           reconnect_delays (timers c) @ map (\<lambda>n. 1000 * n) [Suc ?a ..< Suc ?b]"
    and ab: "?a \<le> ?b" and b5: "?b \<le> maxReconnectAttempts"
    using step_delays [of e c] Cons.prems by simp_all
  have r: "reconnect_delays (timers (run es (step e c))) =
           reconnect_delays (timers (step e c)) @ map (\<lambda>n. 1000 * n) [Suc ?b ..< Suc ?d]"
    and bd: "?b \<le> ?d" and d5: "?d \<le> maxReconnectAttempts"
    using Cons.IH [of "step e c"] Cons.prems b5 by simp_all
  have "[Suc ?a ..< Suc ?b] @ [Suc ?b ..< Suc ?d] = [Suc ?a ..< Suc ?d]"
    using ab bd by (metis Suc_le_mono upt_add_eq_append le_Suc_ex)
  then have "map (\<lambda>n. 1000 * n) [Suc ?a ..< Suc ?b] @ map (\<lambda>n. 1000 * n) [Suc ?b ..< Suc ?d]
       = map (\<lambda>n. 1000 * n) [Suc ?a ..< Suc ?d]"
    by (metis map_append)
  then show ?case using s r ab bd d5 by simp
qed

text \<open>
  C5. Take a client whose retry counter is 0, as it is whenever a socket has opened, and
  any sequence of events in which no socket opens and \<^verbatim>\<open>disconnect\<close> is not called. The
  reconnect timers armed during it have the delays 1000, 2000, ... up to 1000 times the
  final value of the counter, in this order, and that value is at most 5: at most five
  reconnect attempts are scheduled, the n-th after n * 1000 ms, and there is no sixth.
  Whenever a socket then opens, the counter is 0 again.
\<close>

theorem reconnect_bound:
  assumes "\<forall>e \<in> set es. \<not> resets e" and "reconnectAttempts c = 0"
  shows "reconnect_delays (timers (run es c)) =
           reconnect_delays (timers c) @
             map (\<lambda>n. n * 1000) [1 ..< Suc (reconnectAttempts (run es c))]
         \<and> reconnectAttempts (run es c) \<le> 5
         \<and> reconnectAttempts (step (WsOpen sid) (run es c)) = 0"
proof -
  have "(\<lambda>n::nat. 1000 * n) = (\<lambda>n. n * 1000)" by (simp add: mult.commute)
  then show ?thesis
    using run_delays [of es c] assms
    by (simp add: maxReconnectAttempts_def on_open_def emit_def settle_connect_def)
qed

theorem reconnect_bound_witness:
  "list_all (\<lambda>e. \<not> resets e) five_failures \<and> reconnectAttempts just_opened = 0 \<and>
   reconnect_delays (timers (run five_failures just_opened)) = [1000, 2000, 3000, 4000, 5000]
   \<and> reconnectAttempts (run five_failures just_opened) \<le> 5
         \<and> reconnectAttempts (step (WsOpen 6) (run five_failures just_opened)) = 0"
proof -
  have h1: "\<forall>e \<in> set five_failures. \<not> resets e" by (simp add: five_failures_def)
  have h2: "reconnectAttempts just_opened = 0" by (simp add: just_opened_def client_defs)
  have h3: "reconnect_delays (timers just_opened) = []" by (simp add: just_opened_def client_defs)
  have h4: "reconnectAttempts (run five_failures just_opened) = 5" by (simp add: five_failures_def just_opened_def client_defs)
  have h5: "map (\<lambda>n. n * 1000) [1 ..< Suc 5] = [1000, 2000, 3000, 4000, 5000::nat]" by (simp add: upt_rec)
  have h6: "list_all (\<lambda>e. \<not> resets e) five_failures" using h1 by (simp add: list_all_iff)
  show ?thesis using reconnect_bound [OF h1 h2, of 6] h2 h3 h4 h5 h6 by simp
qed

text \<open>
  C6 on a client whose channel closed by itself a moment ago: the reconnect timer is armed
  and \<^verbatim>\<open>_ws\<close> is null, so \<^verbatim>\<open>disconnect\<close> does nothing (it does not set the counter), and when
  the timer fires the client connects again.
\<close>

theorem reconnect_fires_after_disconnect:
  "run [CallConnect, WsOpen 0, WsClose 0, CallDisconnect] (PluginClient ''localhost'' (Port 9223)) =
     run [CallConnect, WsOpen 0, WsClose 0] (PluginClient ''localhost'' (Port 9223)) \<and>
   ws reconnect_after_disconnect = Some 1 \<and>
   map readyState (sockets reconnect_after_disconnect) = [CLOSED, CONNECTING] \<and>
   reconnectAttempts reconnect_after_disconnect = 1"
  by (simp add: reconnect_after_disconnect_def client_defs)

text \<open>
  What \<^verbatim>\<open>disconnect\<close> does achieve: on a client that holds a socket it sets the counter to
  the maximum, and the handler of \<^verbatim>\<open>close\<close> then arms no timer.
\<close>

lemma disconnect_blocks_rearming:
  assumes "ws c = Some s"
  shows "reconnectAttempts (disconnect c) = maxReconnectAttempts"
    and "timers (step (WsClose sid) (disconnect c)) = timers c"
  using assms
  by (simp_all add: disconnect_def on_close_def set_ready_def emit_def setTimeout_def Let_def)

subsection \<open>The invariant of the client\<close>

lemma refs_ok_append: "refs_ok ts h k \<Longrightarrow> refs_ok (ts @ us) h k"
  by (simp add: refs_ok_def nth_append)

lemma refs_ok_restatus: "refs_ok ts h k \<Longrightarrow> refs_ok (ts[h' := (fst (ts ! h'), st)]) h k"
  by (cases "h' = h") (simp_all add: refs_ok_def)

lemma refs_ok_new: "refs_ok (ts @ [(RequestTimer rid k ms, st)]) (length ts) k"
  by (simp add: refs_ok_def)

lemma timers_ok_restatus:
  assumes "timers_ok ts ps" and "st \<noteq> Armed"
  shows "timers_ok (ts[h := (fst (ts ! h), st)]) ps"
  unfolding timers_ok_def
proof (intro allI impI)
  fix g k
  let ?ts = "ts[h := (fst (ts ! h), st)]"
  assume g: "g < length ?ts" and k: "req_call (fst (?ts ! g)) = Some k"
  have fst_same: "\<And>j. j < length ts \<Longrightarrow> fst (?ts ! j) = fst (ts ! j)"
    by (cases "h < length ts") (simp_all add: nth_list_update)
  have g': "g < length ts" using g by simp
  have k': "req_call (fst (ts ! g)) = Some k" using k fst_same g' by simp
  have old: "k < length ps \<and> (snd (ts ! g) = Armed \<longrightarrow> ps ! k = Unsettled) \<and>
        (\<forall>h' < length ts. req_call (fst (ts ! h')) = Some k \<longrightarrow> h' = g)"
    using assms(1) g' k' unfolding timers_ok_def by blast
  have armed: "snd (?ts ! g) = Armed \<longrightarrow> snd (ts ! g) = Armed"
    using assms(2) g' by (cases "h = g") simp_all
  show "k < length ps \<and> (snd (?ts ! g) = Armed \<longrightarrow> ps ! k = Unsettled) \<and>
        (\<forall>h' < length ?ts. req_call (fst (?ts ! h')) = Some k \<longrightarrow> h' = g)"
    using old armed fst_same by simp
qed

lemma timers_ok_settle:
  assumes "timers_ok ts ps" and "refs_ok ts h k" and "snd (ts ! h) \<noteq> Armed"
  shows "timers_ok ts (settle k v ps)"
  unfolding timers_ok_def
proof (intro allI impI)
  fix g j
  assume g: "g < length ts" and j: "req_call (fst (ts ! g)) = Some j"
  have old: "j < length ps \<and> (snd (ts ! g) = Armed \<longrightarrow> ps ! j = Unsettled) \<and>
        (\<forall>h' < length ts. req_call (fst (ts ! h')) = Some j \<longrightarrow> h' = g)"
    using assms(1) g j unfolding timers_ok_def by blast
  have len: "length (settle k v ps) = length ps" by (simp add: settle_def)
  have "snd (ts ! g) = Armed \<longrightarrow> settle k v ps ! j = Unsettled"
  proof
    assume a: "snd (ts ! g) = Armed"
    have "j \<noteq> k"
    proof
      assume "j = k"
      then have "h = g" using old assms(2) by (simp add: refs_ok_def)
      then show False using a assms(3) by simp
    qed
    then show "settle k v ps ! j = Unsettled" using old a by (simp add: settle_def)
  qed
  then show "j < length (settle k v ps) \<and> (snd (ts ! g) = Armed \<longrightarrow> settle k v ps ! j = Unsettled) \<and>
        (\<forall>h' < length ts. req_call (fst (ts ! h')) = Some j \<longrightarrow> h' = g)"
    using old len by simp
qed

lemma timers_ok_more_promises:
  assumes "timers_ok ts ps"
  shows "timers_ok ts (ps @ qs)"
  unfolding timers_ok_def
proof (intro allI impI)
  fix g k
  assume g: "g < length ts" and k: "req_call (fst (ts ! g)) = Some k"
  have old: "k < length ps \<and> (snd (ts ! g) = Armed \<longrightarrow> ps ! k = Unsettled) \<and>
        (\<forall>h' < length ts. req_call (fst (ts ! h')) = Some k \<longrightarrow> h' = g)"
    using assms g k unfolding timers_ok_def by blast
  then show "k < length (ps @ qs) \<and> (snd (ts ! g) = Armed \<longrightarrow> (ps @ qs) ! k = Unsettled) \<and>
        (\<forall>h' < length ts. req_call (fst (ts ! h')) = Some k \<longrightarrow> h' = g)"
    by (simp add: nth_append)
qed

lemma timers_okD:
  assumes "timers_ok ts ps" and "h < length ts" and "req_call (fst (ts ! h)) = Some k"
  shows "k < length ps" and "snd (ts ! h) = Armed \<Longrightarrow> ps ! k = Unsettled"
    and "\<And>h'. h' < length ts \<Longrightarrow> req_call (fst (ts ! h')) = Some k \<Longrightarrow> h' = h"
  using assms unfolding timers_ok_def by blast+

lemma timers_ok_new_reconnect:
  assumes "timers_ok ts ps"
  shows "timers_ok (ts @ [(ReconnectTimer d, st)]) ps"
  unfolding timers_ok_def
proof (intro allI impI)
  fix g k
  let ?ts = "ts @ [(ReconnectTimer d, st)]"
  assume g: "g < length ?ts" and k: "req_call (fst (?ts ! g)) = Some k"
  have last: "req_call (fst (?ts ! length ts)) = None" by simp
  have inside: "\<And>j. j < length ?ts \<Longrightarrow> req_call (fst (?ts ! j)) = Some k
                  \<Longrightarrow> j < length ts \<and> ?ts ! j = ts ! j"
  proof -
    fix j assume a: "j < length ?ts" "req_call (fst (?ts ! j)) = Some k"
    have "j \<noteq> length ts" using a(2) last by auto
    then have "j < length ts" using a(1) by simp
    then show "j < length ts \<and> ?ts ! j = ts ! j" by (simp add: nth_append)
  qed
  have g': "g < length ts" and nth: "?ts ! g = ts ! g" using inside [OF g k] by simp_all
  have k': "req_call (fst (ts ! g)) = Some k" using k nth by simp
  note old = timers_okD [OF assms g' k']
  have uniq: "\<forall>h' < length ?ts. req_call (fst (?ts ! h')) = Some k \<longrightarrow> h' = g"
  proof (intro allI impI)
    fix h' assume a: "h' < length ?ts" "req_call (fst (?ts ! h')) = Some k"
    have "h' < length ts" and "?ts ! h' = ts ! h'" using inside [OF a] by simp_all
    then show "h' = g" using a(2) old(3) by simp
  qed
  show "k < length ps \<and> (snd (?ts ! g) = Armed \<longrightarrow> ps ! k = Unsettled) \<and>
        (\<forall>h' < length ?ts. req_call (fst (?ts ! h')) = Some k \<longrightarrow> h' = g)"
    using old(1,2) uniq nth by simp
qed

lemma timers_ok_new_request:
  assumes "timers_ok ts ps"
  shows "timers_ok (ts @ [(RequestTimer rid (length ps) ms, Armed)]) (ps @ [Unsettled])"
  unfolding timers_ok_def
proof (intro allI impI)
  fix g k
  let ?ts = "ts @ [(RequestTimer rid (length ps) ms, Armed)]" and ?ps = "ps @ [Unsettled]"
  assume g: "g < length ?ts" and k: "req_call (fst (?ts ! g)) = Some k"
  have last: "?ts ! length ts = (RequestTimer rid (length ps) ms, Armed)" by simp
  have inside: "\<And>j. j < length ?ts \<Longrightarrow> j \<noteq> length ts \<Longrightarrow> j < length ts \<and> ?ts ! j = ts ! j"
  proof -
    fix j assume a: "j < length ?ts" "j \<noteq> length ts"
    then have "j < length ts" by simp
    then show "j < length ts \<and> ?ts ! j = ts ! j" by (simp add: nth_append)
  qed
  have fresh: "\<And>j. j < length ts \<Longrightarrow> req_call (fst (ts ! j)) \<noteq> Some (length ps)"
  proof
    fix j assume a: "j < length ts" "req_call (fst (ts ! j)) = Some (length ps)"
    show False using timers_okD(1) [OF assms a] by simp
  qed
  show "k < length ?ps \<and> (snd (?ts ! g) = Armed \<longrightarrow> ?ps ! k = Unsettled) \<and>
        (\<forall>h' < length ?ts. req_call (fst (?ts ! h')) = Some k \<longrightarrow> h' = g)"
  proof (cases "g = length ts")
    case True
    have kk: "k = length ps" using k True last by simp
    have "\<forall>h' < length ?ts. req_call (fst (?ts ! h')) = Some k \<longrightarrow> h' = g"
    proof (intro allI impI)
      fix h' assume a: "h' < length ?ts" "req_call (fst (?ts ! h')) = Some k"
      show "h' = g"
      proof (rule ccontr)
        assume "h' \<noteq> g"
        then have "h' < length ts" and "?ts ! h' = ts ! h'" using inside [OF a(1)] True by simp_all
        then show False using a(2) fresh kk by simp
      qed
    qed
    moreover have "?ps ! k = Unsettled" using kk by simp
    moreover have "k < length ?ps" using kk by simp
    ultimately show ?thesis by blast
  next
    case False
    have g': "g < length ts" and nth: "?ts ! g = ts ! g" using inside [OF g False] by simp_all
    have k': "req_call (fst (ts ! g)) = Some k" using k nth by simp
    note old = timers_okD [OF assms g' k']
    have "\<forall>h' < length ?ts. req_call (fst (?ts ! h')) = Some k \<longrightarrow> h' = g"
    proof (intro allI impI)
      fix h' assume a: "h' < length ?ts" "req_call (fst (?ts ! h')) = Some k"
      have "h' \<noteq> length ts"
      proof
        assume "h' = length ts"
        then have "k = length ps" using a(2) last by simp
        then show False using old(1) by simp
      qed
      then have "h' < length ts" and "?ts ! h' = ts ! h'" using inside [OF a(1)] by simp_all
      then show "h' = g" using a(2) old(3) by simp
    qed
    moreover have "snd (?ts ! g) = Armed \<longrightarrow> ?ps ! k = Unsettled"
      using old(1,2) nth by (simp add: nth_append)
    moreover have "k < length ?ps" using old(1) by simp
    ultimately show ?thesis by blast
  qed
qed

lemma client_inv_frame:
  assumes "client_inv c" and "timers c' = timers c" and "promises c' = promises c"
    and "pendingRequests c' = pendingRequests c" and "writes c' = writes c"
  shows "client_inv c'"
  using assms by (simp add: client_inv_def)

lemma client_inv_forget:
  assumes "client_inv c"
  shows "client_inv (c\<lparr>pendingRequests := (pendingRequests c)(i := None)\<rparr>)"
  using assms by (simp add: client_inv_def)

lemma client_inv_restatus:
  assumes "client_inv c" and "st \<noteq> Armed"
  shows "client_inv (c\<lparr>timers := (timers c)[h := (fst (timers c ! h), st)]\<rparr>)"
  using assms by (simp add: client_inv_def timers_ok_restatus refs_ok_restatus)

lemma client_inv_clearTimeout:
  assumes "client_inv c"
  shows "client_inv (clearTimeout h c)"
  using assms by (simp add: clearTimeout_def client_inv_restatus)

lemma client_inv_settle:
  assumes "client_inv c" and "refs_ok (timers c) h k" and "snd (timers c ! h) \<noteq> Armed"
  shows "client_inv (settle_call k v c)"
  using assms by (simp add: client_inv_def settle_call_def timers_ok_settle)

lemma client_inv_connect:
  assumes "client_inv c"
  shows "client_inv (connect c)"
  by (rule client_inv_frame [OF assms]) (simp_all add: connect_def)

lemma client_inv_disconnect:
  assumes "client_inv c"
  shows "client_inv (disconnect c)"
  by (rule client_inv_frame [OF assms]) (simp_all add: disconnect_def split: option.splits)

lemma client_inv_set_ready:
  assumes "client_inv c"
  shows "client_inv (set_ready sid r c)"
  by (rule client_inv_frame [OF assms]) (simp_all add: set_ready_def)

lemma client_inv_on_open:
  assumes "client_inv c"
  shows "client_inv (on_open sid c)"
  by (rule client_inv_frame [OF assms]) (simp_all add: on_open_def emit_def settle_connect_def)

lemma client_inv_on_error:
  assumes "client_inv c"
  shows "client_inv (on_error sid err c)"
  by (rule client_inv_frame [OF assms]) (simp_all add: on_error_def emit_def settle_connect_def)

lemma client_inv_connect_invalid:
  assumes "client_inv c"
  shows "client_inv (connect_invalid err c)"
  by (rule client_inv_frame [OF assms]) (simp_all add: connect_invalid_def)

lemma client_inv_listen:
  assumes "client_inv c"
  shows "client_inv (c\<lparr>errorListener := True\<rparr>)"
  by (rule client_inv_frame [OF assms]) simp_all

lemma client_inv_on_close:
  assumes "client_inv c"
  shows "client_inv (on_close sid c)"
  using assms
  by (simp add: on_close_def Let_def setTimeout_def emit_def client_inv_def
        timers_ok_new_reconnect refs_ok_append)

lemma clearTimeout_disarms:
  "h < length (timers c) \<Longrightarrow> snd (timers (clearTimeout h c) ! h) \<noteq> Armed"
  by (simp add: clearTimeout_def)

lemma clearTimeout_refs:
  "refs_ok (timers c) h k \<Longrightarrow> refs_ok (timers (clearTimeout h' c)) h k"
  by (simp add: clearTimeout_def refs_ok_restatus)

lemma client_inv_on_message:
  assumes "client_inv c"
  shows "client_inv (on_message sid d c)"
proof (cases d)
  case Unparseable
  then show ?thesis using assms by (simp add: on_message_def)
next
  case (Parsed m)
  have ev: "client_inv (emit (EvEvent m) c)"
    by (rule client_inv_frame [OF assms]) (simp_all add: emit_def)
  show ?thesis
  proof (cases "resp_id m")
    case None
    then show ?thesis using Parsed ev by (simp add: on_message_def)
  next
    case (Some i)
    show ?thesis
    proof (cases "i \<noteq> [] \<and> pendingRequests c i \<noteq> None")
      case False
      then have "on_message sid d c = emit (EvEvent m) c"
        using Parsed Some by (auto simp: on_message_def)
      then show ?thesis using ev by simp
    next
      case True
      then obtain p where p: "pendingRequests c i = Some p" by blast
      have r: "refs_ok (timers c) (timeout p) (settles p)"
        using assms p by (simp add: client_inv_def)
      let ?c1 = "clearTimeout (timeout p) c"
      let ?c2 = "?c1\<lparr>pendingRequests := (pendingRequests ?c1)(i := None)\<rparr>"
      have "client_inv ?c2"
        using assms by (simp add: client_inv_clearTimeout client_inv_forget)
      moreover have "refs_ok (timers ?c2) (timeout p) (settles p)"
        using r by (simp add: clearTimeout_refs)
      moreover have "snd (timers ?c2 ! timeout p) \<noteq> Armed"
        using r clearTimeout_disarms [of "timeout p" c] by (simp add: refs_ok_def)
      ultimately have "client_inv (settle_call (settles p) (Resolved m) ?c2)"
        by (rule client_inv_settle)
      moreover have "pendingRequests ?c1 = pendingRequests c" by (simp add: clearTimeout_def)
      ultimately show ?thesis using Parsed Some True p by (simp add: on_message_def)
    qed
  qed
qed

lemma client_inv_send_failed:
  assumes "client_inv c"
  shows "client_inv (send_failed i err c)"
proof (cases "i < length (writes c)")
  case False
  then show ?thesis using assms by (simp add: send_failed_def)
next
  case True
  let ?w = "writes c ! i"
  have r: "refs_ok (timers c) (w_timer ?w) (w_call ?w)"
    using assms True by (simp add: client_inv_def)
  let ?c1 = "clearTimeout (w_timer ?w) c"
  let ?c2 = "?c1\<lparr>pendingRequests := (pendingRequests ?c1)(w_id ?w := None)\<rparr>"
  have "client_inv ?c2"
    using assms by (simp add: client_inv_clearTimeout client_inv_forget)
  moreover have "refs_ok (timers ?c2) (w_timer ?w) (w_call ?w)"
    using r by (simp add: clearTimeout_refs)
  moreover have "snd (timers ?c2 ! w_timer ?w) \<noteq> Armed"
    using r clearTimeout_disarms [of "w_timer ?w" c] by (simp add: refs_ok_def)
  ultimately have "client_inv (settle_call (w_call ?w) (Rejected err) ?c2)"
    by (rule client_inv_settle)
  then show ?thesis using True by (simp add: send_failed_def Let_def)
qed

lemma client_inv_timer_fires:
  assumes "client_inv c"
  shows "client_inv (timer_fires h c)"
proof (cases "h < length (timers c) \<and> snd (timers c ! h) = Armed")
  case False
  then have "timer_fires h c = c" by (auto simp: timer_fires_def)
  then show ?thesis using assms by simp
next
  case True
  let ?c1 = "c\<lparr>timers := (timers c)[h := (fst (timers c ! h), Fired)]\<rparr>"
  have c1: "client_inv ?c1" using assms by (simp add: client_inv_restatus)
  show ?thesis
  proof (cases "fst (timers c ! h)")
    case (ReconnectTimer d)
    then show ?thesis using True c1 by (simp add: timer_fires_def Let_def client_inv_connect)
  next
    case (RequestTimer rid k ms)
    let ?c2 = "?c1\<lparr>pendingRequests := (pendingRequests ?c1)(rid := None)\<rparr>"
    have "client_inv ?c2" using c1 by (rule client_inv_forget)
    moreover have "refs_ok (timers ?c2) h k" using True RequestTimer by (simp add: refs_ok_def)
    moreover have "snd (timers ?c2 ! h) \<noteq> Armed" using True by simp
    ultimately have "client_inv (settle_call k (Rejected (''Request timeout after '' @ num_to_string ms @ ''ms'')) ?c2)"
      by (rule client_inv_settle)
    then show ?thesis using True RequestTimer by (simp add: timer_fires_def Let_def)
  qed
qed

lemma client_inv_sendCommand:
  assumes "client_inv c"
  shows "client_inv (sendCommand rid cmd ms c)"
proof (cases "isConnected c")
  case False
  then show ?thesis using assms
    by (simp add: sendCommand_def client_inv_def timers_ok_more_promises)
next
  case True
  let ?ts = "timers c @ [(RequestTimer rid (length (promises c)) ms, Armed)]"
  have t: "timers_ok ?ts (promises c @ [Unsettled])"
    using assms by (simp add: client_inv_def timers_ok_new_request)
  have new: "refs_ok ?ts (length (timers c)) (length (promises c))" by (rule refs_ok_new)
  have p: "\<forall>i p. pendingRequests c i = Some p \<longrightarrow> refs_ok ?ts (timeout p) (settles p)"
    using assms by (simp add: client_inv_def refs_ok_append)
  have w: "\<forall>w \<in> set (writes c). refs_ok ?ts (w_timer w) (w_call w)"
    using assms by (simp add: client_inv_def refs_ok_append)
  show ?thesis using True t new p w
    by (simp add: sendCommand_def client_inv_def Let_def setTimeout_def)
qed

lemma client_inv_step: "client_inv c \<Longrightarrow> client_inv (step e c)"
  by (cases e)
     (simp_all add: client_inv_connect client_inv_disconnect client_inv_sendCommand
        client_inv_on_open client_inv_on_message client_inv_on_error client_inv_on_close
        client_inv_timer_fires client_inv_send_failed client_inv_set_ready
        client_inv_connect_invalid client_inv_listen)

lemma client_inv_run: "client_inv c \<Longrightarrow> client_inv (run es c)"
  by (induction es arbitrary: c) (simp_all add: client_inv_step)

lemma client_inv_new: "client_inv (PluginClient h p)"
  by (simp add: client_inv_def PluginClient_def timers_ok_def)

lemma reachable_inv: "reachable c \<Longrightarrow> client_inv c"
  unfolding reachable_def using client_inv_run client_inv_new by blast

subsection \<open>Timeouts\<close>

lemma sendCommand_connected:
  assumes "isConnected c"
  shows "promises (sendCommand rid cmd ms c) = promises c @ [Unsettled]"
    and "timers (sendCommand rid cmd ms c) =
           timers c @ [(RequestTimer rid (length (promises c)) ms, Armed)]"
    and "pendingRequests (sendCommand rid cmd ms c) =
           (pendingRequests c)(rid \<mapsto> \<lparr>settles = length (promises c), timeout = length (timers c)\<rparr>)"
    and "isConnected (sendCommand rid cmd ms c)"
  using assms
  by (simp_all add: sendCommand_def Let_def setTimeout_def isConnected_def split: option.splits)

text \<open>
  In every state the client can reach, a timeout timer that is still armed belongs to a
  call whose promise is unsettled. When it fires, that promise is rejected with the
  timeout message and the entry of the request id leaves the map, which loses this key and
  no other.
\<close>

lemma armed_timer_fires:
  assumes "reachable c" and "h < length (timers c)"
    and "timers c ! h = (RequestTimer rid k timeoutMs, Armed)"
  shows "promises (step (TimerFires h) c) ! k =
           Rejected (''Request timeout after '' @ num_to_string timeoutMs @ ''ms'')
         \<and> pendingRequests (step (TimerFires h) c) rid = None
         \<and> dom (pendingRequests (step (TimerFires h) c)) = dom (pendingRequests c) - {rid}"
proof -
  have inv: "timers_ok (timers c) (promises c)"
    using reachable_inv [OF assms(1)] by (simp add: client_inv_def)
  have k: "req_call (fst (timers c ! h)) = Some k" using assms(3) by simp
  have "k < length (promises c)" and "promises c ! k = Unsettled"
    using timers_okD(1,2) [OF inv assms(2) k] assms(3) by simp_all
  then show ?thesis using assms(2,3)
    by (simp add: timer_fires_def settle_call_def settle_def Let_def)
qed

lemma waiting_frame:
  assumes "waiting rid k ms h j c" and "timers c' = timers c @ added"
    and "pendingRequests c' = pendingRequests c" and "writes c' = writes c"
  shows "waiting rid k ms h j c'"
  using assms by (simp add: waiting_def nth_append)

lemma clearTimeout_other:
  assumes "g \<noteq> h"
  shows "timers (clearTimeout g c) ! h = timers c ! h"
    and "length (timers (clearTimeout g c)) = length (timers c)"
    and "pendingRequests (clearTimeout g c) = pendingRequests c"
    and "writes (clearTimeout g c) = writes c"
  using assms by (simp_all add: clearTimeout_def)

lemma waiting_connect:
  assumes "waiting rid k ms h j c"
  shows "waiting rid k ms h j (connect c)"
  by (rule waiting_frame [OF assms, where added = "[]"]) (simp_all add: connect_def)

lemma waiting_step:
  assumes "waiting rid k ms h j c" and "undisturbed rid h j e"
  shows "waiting rid k ms h j (step e c)"
proof (cases e)
  case CallConnect
  then show ?thesis using assms(1) by (simp add: waiting_connect)
next
  case CallDisconnect
  have "waiting rid k ms h j (disconnect c)"
    by (rule waiting_frame [OF assms(1), where added = "[]"])
       (simp_all add: disconnect_def split: option.splits)
  then show ?thesis using CallDisconnect by simp
next
  case (CallSendCommand rid' cmd' ms')
  show ?thesis
  proof (cases "isConnected c")
    case False
    have "waiting rid k ms h j (sendCommand rid' cmd' ms' c)"
      by (rule waiting_frame [OF assms(1), where added = "[]"]) (simp_all add: sendCommand_def False)
    then show ?thesis using CallSendCommand by simp
  next
    case True
    have h: "h < length (timers c)" using assms(1) by (simp add: waiting_def)
    then have ne: "length (timers c) \<noteq> h" by simp
    have "waiting rid k ms h j (sendCommand rid' cmd' ms' c)"
      using assms(1) True ne
      by (auto simp: waiting_def sendCommand_def Let_def setTimeout_def nth_append)
    then show ?thesis using CallSendCommand by simp
  qed
next
  case (WsOpen sid)
  have "waiting rid k ms h j (on_open sid (set_ready sid OPEN c))"
    by (rule waiting_frame [OF assms(1), where added = "[]"])
       (simp_all add: on_open_def emit_def settle_connect_def set_ready_def)
  then show ?thesis using WsOpen by simp
next
  case (WsError sid err)
  have "waiting rid k ms h j (on_error sid err (set_ready sid CLOSING c))"
    by (rule waiting_frame [OF assms(1), where added = "[]"])
       (simp_all add: on_error_def emit_def settle_connect_def set_ready_def)
  then show ?thesis using WsError by simp
next
  case (WsClose sid)
  have "\<exists>added. timers (on_close sid (set_ready sid CLOSED c)) = timers c @ added"
    by (simp add: on_close_def emit_def set_ready_def setTimeout_def Let_def)
  then obtain added where m: "timers (on_close sid (set_ready sid CLOSED c)) = timers c @ added" by blast
  have "waiting rid k ms h j (on_close sid (set_ready sid CLOSED c))"
    by (rule waiting_frame [OF assms(1) m])
       (simp_all add: on_close_def emit_def set_ready_def setTimeout_def Let_def)
  then show ?thesis using WsClose by simp
next
  case (WsMessage sid d)
  show ?thesis
  proof (cases "\<exists>m i p. d = Parsed m \<and> resp_id m = Some i \<and> i \<noteq> [] \<and> pendingRequests c i = Some p")
    case False
    have "waiting rid k ms h j (on_message sid d c)"
      by (rule waiting_frame [OF assms(1), where added = "[]"])
         (use False in \<open>auto simp: on_message_def emit_def split: inbound.splits option.splits\<close>)
    then show ?thesis using WsMessage by simp
  next
    case True
    then obtain m i p where d: "d = Parsed m" and ip: "resp_id m = Some i" "i \<noteq> []"
      "pendingRequests c i = Some p" by blast
    have "i \<noteq> rid" using assms(2) WsMessage d ip(1) by auto
    then have g: "timeout p \<noteq> h" using assms(1) ip(3) by (auto simp: waiting_def)
    have "on_message sid d c =
            settle_call (settles p) (Resolved m)
              ((clearTimeout (timeout p) c)\<lparr>pendingRequests := (pendingRequests c)(i := None)\<rparr>)"
      using d ip by (simp add: on_message_def)
    then have "waiting rid k ms h j (on_message sid d c)"
      using assms(1) clearTimeout_other [OF g, of c]
      by (auto simp: waiting_def settle_call_def)
    then show ?thesis using WsMessage by simp
  qed
next
  case (TimerFires g)
  then have g: "g \<noteq> h" using assms(2) by simp
  show ?thesis
  proof (cases "g < length (timers c) \<and> snd (timers c ! g) = Armed")
    case False
    then have "timer_fires g c = c" by (auto simp: timer_fires_def)
    then show ?thesis using assms(1) TimerFires by simp
  next
    case True
    let ?c1 = "c\<lparr>timers := (timers c)[g := (fst (timers c ! g), Fired)]\<rparr>"
    have w1: "waiting rid k ms h j ?c1" using assms(1) g by (auto simp: waiting_def)
    have "waiting rid k ms h j (timer_fires g c)"
    proof (cases "fst (timers c ! g)")
      case (ReconnectTimer dl)
      then show ?thesis using True w1 by (simp add: timer_fires_def Let_def waiting_connect)
    next
      case (RequestTimer r' k' ms')
      have "waiting rid k ms h j
              (settle_call k' (Rejected (''Request timeout after '' @ num_to_string ms' @ ''ms''))
                 (?c1\<lparr>pendingRequests := (pendingRequests ?c1)(r' := None)\<rparr>))"
        using w1 by (auto simp: waiting_def settle_call_def)
      then show ?thesis using True RequestTimer by (simp add: timer_fires_def Let_def)
    qed
    then show ?thesis using TimerFires by simp
  qed
next
  case CallOnError
  have "waiting rid k ms h j (c\<lparr>errorListener := True\<rparr>)"
    by (rule waiting_frame [OF assms(1), where added = "[]"]) simp_all
  then show ?thesis using CallOnError by simp
next
  case (CallConnectInvalid err)
  have "waiting rid k ms h j (connect_invalid err c)"
    by (rule waiting_frame [OF assms(1), where added = "[]"]) (simp_all add: connect_invalid_def)
  then show ?thesis using CallConnectInvalid by simp
next
  case (SendFailed i err)
  then have i: "i \<noteq> j" using assms(2) by simp
  show ?thesis
  proof (cases "i < length (writes c)")
    case False
    then have "send_failed i err c = c" by (simp add: send_failed_def)
    then show ?thesis using assms(1) SendFailed by simp
  next
    case True
    let ?w = "writes c ! i"
    have g: "w_timer ?w \<noteq> h" using assms(1) True i by (auto simp: waiting_def)
    have "waiting rid k ms h j (send_failed i err c)"
      using assms(1) True clearTimeout_other [OF g, of c]
      by (auto simp: waiting_def send_failed_def Let_def settle_call_def)
    then show ?thesis using SendFailed by simp
  qed
qed

lemma waiting_run:
  assumes "waiting rid k ms h j c" and "\<forall>e \<in> set es. undisturbed rid h j e"
  shows "waiting rid k ms h j (run es c)"
  using assms by (induction es arbitrary: c) (simp_all add: waiting_step)

lemma waiting_after_send:
  assumes "client_inv c" and "isConnected c"
  shows "waiting rid (length (promises c)) ms (length (timers c)) (length (writes c))
           (sendCommand rid cmd ms c)"
proof -
  have p: "\<And>i p. pendingRequests c i = Some p \<Longrightarrow> timeout p < length (timers c)"
    using assms(1) by (auto simp: client_inv_def refs_ok_def)
  have w: "\<And>i. i < length (writes c) \<Longrightarrow> w_timer (writes c ! i) < length (timers c)"
    using assms(1) by (auto simp: client_inv_def refs_ok_def)
  have "\<forall>i p. pendingRequests (sendCommand rid cmd ms c) i = Some p \<and> timeout p = length (timers c)
          \<longrightarrow> i = rid"
  proof (intro allI impI)
    fix i q
    assume a: "pendingRequests (sendCommand rid cmd ms c) i = Some q \<and> timeout q = length (timers c)"
    show "i = rid"
    proof (rule ccontr)
      assume "i \<noteq> rid"
      then have "pendingRequests c i = Some q"
        using a sendCommand_connected(3) [OF assms(2), of rid cmd ms] by simp
      then show False using p [of i q] a by simp
    qed
  qed
  moreover have "\<forall>i < length (writes (sendCommand rid cmd ms c)).
          w_timer (writes (sendCommand rid cmd ms c) ! i) = length (timers c) \<longrightarrow> i = length (writes c)"
  proof (intro allI impI)
    fix i
    assume a: "i < length (writes (sendCommand rid cmd ms c))"
      "w_timer (writes (sendCommand rid cmd ms c) ! i) = length (timers c)"
    show "i = length (writes c)"
    proof (rule ccontr)
      assume "i \<noteq> length (writes c)"
      then have lt: "i < length (writes c)" using a(1) assms(2)
        by (simp add: sendCommand_def Let_def setTimeout_def)
      then have "writes (sendCommand rid cmd ms c) ! i = writes c ! i" using assms(2)
        by (simp add: sendCommand_def Let_def setTimeout_def nth_append)
      then show False using w [OF lt] a(2) by simp
    qed
  qed
  ultimately show ?thesis
    using sendCommand_connected(2) [OF assms(2), of rid cmd ms]
    by (simp add: waiting_def)
qed

lemma reachable_step: "reachable c \<Longrightarrow> reachable (run es c)"
  unfolding reachable_def by (metis run_append)

text \<open>
  C7. Take a client in any state it can reach, with its channel open, and a call of
  \<^verbatim>\<open>sendCommand\<close> with timeout \<^verbatim>\<open>timeoutMs\<close>. Let anything happen afterwards except that a
  response with the id of this call is delivered, that its write fails, or that its timer
  has fired already. When the timer of the call fires, the promise of the call is rejected
  with \<^verbatim>\<open>Request timeout after {timeoutMs}ms\<close>, and the map has no entry for the id.
\<close>

theorem request_timeout:
  assumes "reachable c" and "isConnected c"
    and "\<forall>e \<in> set es. undisturbed rid (length (timers c)) (length (writes c)) e"
  shows "promises (run (CallSendCommand rid cmd timeoutMs # es @ [TimerFires (length (timers c))]) c)
             ! length (promises c) =
           Rejected (''Request timeout after '' @ num_to_string timeoutMs @ ''ms'') \<and>
         pendingRequests (run (CallSendCommand rid cmd timeoutMs # es @ [TimerFires (length (timers c))]) c)
             rid = None"
proof -
  let ?h = "length (timers c)" and ?k = "length (promises c)"
  let ?c1 = "sendCommand rid cmd timeoutMs c"
  let ?c2 = "run es ?c1"
  have w1: "waiting rid ?k timeoutMs ?h (length (writes c)) ?c1"
    by (rule waiting_after_send [OF reachable_inv [OF assms(1)] assms(2)])
  have w2: "waiting rid ?k timeoutMs ?h (length (writes c)) ?c2"
    by (rule waiting_run [OF w1 assms(3)])
  have "reachable (run (CallSendCommand rid cmd timeoutMs # es) c)"
    by (rule reachable_step [OF assms(1)])
  then have r2: "reachable ?c2" by simp
  have h: "?h < length (timers ?c2)" and t: "timers ?c2 ! ?h = (RequestTimer rid ?k timeoutMs, Armed)"
    using w2 by (simp_all add: waiting_def)
  have "run (CallSendCommand rid cmd timeoutMs # es @ [TimerFires ?h]) c = step (TimerFires ?h) ?c2"
    by (simp add: run_append)
  then show ?thesis using armed_timer_fires [OF r2 h t] by simp
qed

theorem request_timeout_witness:
  "promises (run (CallSendCommand ''req_1'' cmd0 250 #
                    [WsMessage 0 (Parsed (reply ''req_0'' ''late'')), WsMessage 0 Unparseable] @
                    [TimerFires 0]) just_opened) ! 0
     = Rejected ''Request timeout after 250ms'' \<and>
   pendingRequests (run (CallSendCommand ''req_1'' cmd0 250 #
                    [WsMessage 0 (Parsed (reply ''req_0'' ''late'')), WsMessage 0 Unparseable] @
                    [TimerFires 0]) just_opened) ''req_1'' = None"
proof -
  have r: "reachable just_opened" unfolding reachable_def just_opened_def by blast
  have c: "isConnected just_opened" by (simp add: just_opened_def client_defs)
  have l: "length (timers just_opened) = 0" "length (writes just_opened) = 0"
    "length (promises just_opened) = 0"
    by (simp_all add: just_opened_def client_defs)
  have q: "\<forall>e \<in> set [WsMessage 0 (Parsed (reply ''req_0'' ''late'')), WsMessage 0 Unparseable].
             undisturbed ''req_1'' (length (timers just_opened)) (length (writes just_opened)) e"
    by (simp add: reply_def)
  have n: "num_to_string 250 = ''250''" by (simp add: num_to_string.simps)
  show ?thesis
    using request_timeout [OF r c q, of cmd0 250] by (simp add: l n)
qed

subsection \<open>Correlation of responses\<close>

lemma sends_issue:
  assumes "isConnected c" and "distinct (map fst calls)"
  shows "promises (run (map send_event calls) c) = promises c @ replicate (length calls) Unsettled
       \<and> isConnected (run (map send_event calls) c)
       \<and> (\<forall>i. i \<notin> set (map fst calls) \<longrightarrow>
             pendingRequests (run (map send_event calls) c) i = pendingRequests c i)
       \<and> (\<forall>k < length calls. \<exists>h.
             pendingRequests (run (map send_event calls) c) (fst (calls ! k)) =
               Some \<lparr>settles = length (promises c) + k, timeout = h\<rparr>)"
  using assms
proof (induction calls arbitrary: c)
  case Nil
  then show ?case by simp
next
  case (Cons x xs)
  obtain rid cmd ms where x: "x = (rid, cmd, ms)" by (cases x) auto
  let ?c1 = "sendCommand rid cmd ms c"
  let ?c2 = "run (map send_event xs) ?c1"
  note s = sendCommand_connected [OF Cons.prems(1), of rid cmd ms]
  have d: "distinct (map fst xs)" and fresh: "rid \<notin> set (map fst xs)"
    using Cons.prems(2) x by simp_all
  have ih: "promises ?c2 = promises ?c1 @ replicate (length xs) Unsettled"
    "isConnected ?c2"
    "\<And>i. i \<notin> set (map fst xs) \<Longrightarrow> pendingRequests ?c2 i = pendingRequests ?c1 i"
    "\<And>k. k < length xs \<Longrightarrow> \<exists>h. pendingRequests ?c2 (fst (xs ! k)) =
               Some \<lparr>settles = length (promises ?c1) + k, timeout = h\<rparr>"
    using Cons.IH [OF s(4) d] by simp_all
  have run: "run (map send_event (x # xs)) c = ?c2" using x by simp
  have p1: "promises ?c2 = promises c @ replicate (length (x # xs)) Unsettled"
    using ih(1) s(1) by (simp add: replicate_append_same)
  have p3: "\<forall>i. i \<notin> set (map fst (x # xs)) \<longrightarrow> pendingRequests ?c2 i = pendingRequests c i"
    using ih(3) s(3) x by simp
  have p4: "\<forall>k < length (x # xs). \<exists>h. pendingRequests ?c2 (fst ((x # xs) ! k)) =
               Some \<lparr>settles = length (promises c) + k, timeout = h\<rparr>"
  proof (intro allI impI)
    fix k assume k: "k < length (x # xs)"
    show "\<exists>h. pendingRequests ?c2 (fst ((x # xs) ! k)) =
               Some \<lparr>settles = length (promises c) + k, timeout = h\<rparr>"
    proof (cases k)
      case 0
      have "pendingRequests ?c2 rid = pendingRequests ?c1 rid" using ih(3) fresh by simp
      then show ?thesis using 0 x s(3) by simp
    next
      case (Suc j)
      then have "j < length xs" using k by simp
      then show ?thesis using ih(4) [of j] Suc s(1) by simp
    qed
  qed
  show ?case unfolding run using p1 ih(2) p3 p4 by blast
qed

lemma settle_settled:
  assumes "k < length ps" and "ps ! k \<noteq> Unsettled"
  shows "settle j v ps ! k = ps ! k" and "length (settle j v ps) = length ps"
  using assms by (auto simp: settle_def nth_list_update)

lemma on_message_stable:
  assumes "k < length (promises c)" and "promises c ! k \<noteq> Unsettled"
  shows "promises (on_message sid d c) ! k = promises c ! k \<and> length (promises (on_message sid d c)) = length (promises c)"
proof -
  have cl: "promises (clearTimeout h c) = promises c" for h by (simp add: clearTimeout_def)
  show ?thesis using assms
    by (auto simp: on_message_def emit_def settle_call_def settle_settled cl split: inbound.splits option.splits)
qed

lemma deliveries_stable:
  assumes "k < length (promises c)" and "promises c ! k \<noteq> Unsettled"
  shows "promises (run (map (deliver sid) rs) c) ! k = promises c ! k"
  using assms
proof (induction rs arbitrary: c)
  case Nil
  then show ?case by simp
next
  case (Cons r rs)
  have "promises (on_message sid (Parsed r) c) ! k = promises c ! k"
    and "k < length (promises (on_message sid (Parsed r) c))"
    using on_message_stable [OF Cons.prems, of sid "Parsed r"] Cons.prems(1) by simp_all
  then show ?case using Cons.IH [of "on_message sid (Parsed r) c"] Cons.prems(2)
    by (simp add: deliver_def)
qed

lemma on_message_hit:
  assumes "resp_id r = Some i" and "i \<noteq> []" and "pendingRequests c i = Some p"
  shows "promises (on_message sid (Parsed r) c) = settle (settles p) (Resolved r) (promises c)"
    and "pendingRequests (on_message sid (Parsed r) c) = (pendingRequests c)(i := None)"
  using assms by (simp_all add: on_message_def settle_call_def clearTimeout_def)

lemma deliveries_resolve:
  assumes "distinct (map resp_id rs)"
    and "\<forall>r \<in> set rs. \<exists>i p. resp_id r = Some i \<and> i \<noteq> [] \<and> pendingRequests c i = Some p \<and>
            settles p < length (promises c) \<and> promises c ! settles p = Unsettled"
    and "\<forall>r \<in> set rs. \<forall>r' \<in> set rs. \<forall>i j p q.
            resp_id r = Some i \<and> resp_id r' = Some j \<and> pendingRequests c i = Some p \<and>
            pendingRequests c j = Some q \<and> settles p = settles q \<longrightarrow> i = j"
  shows "\<forall>r \<in> set rs. \<forall>i p. resp_id r = Some i \<and> pendingRequests c i = Some p \<longrightarrow>
            promises (run (map (deliver sid) rs) c) ! settles p = Resolved r"
  using assms
proof (induction rs arbitrary: c)
  case Nil
  then show ?case by simp
next
  case (Cons r0 rs)
  obtain i0 p0 where r0: "resp_id r0 = Some i0" "i0 \<noteq> []" "pendingRequests c i0 = Some p0"
    "settles p0 < length (promises c)" "promises c ! settles p0 = Unsettled"
    using Cons.prems(2) by auto
  let ?c1 = "on_message sid (Parsed r0) c"
  note hit = on_message_hit [OF r0(1,2,3), of sid]
  have len: "length (promises ?c1) = length (promises c)" by (simp add: hit settle_def)
  have now: "promises ?c1 ! settles p0 = Resolved r0"
    using r0(4,5) by (simp add: hit settle_def)
  have others: "\<And>r i. r \<in> set rs \<Longrightarrow> resp_id r = Some i \<Longrightarrow> i \<noteq> i0"
    using Cons.prems(1) r0(1) by (auto simp: image_iff)
  have keep: "\<And>r i. r \<in> set rs \<Longrightarrow> resp_id r = Some i \<Longrightarrow>
                pendingRequests ?c1 i = pendingRequests c i"
    using others by (simp add: hit)
  have apart: "\<And>r i p. r \<in> set rs \<Longrightarrow> resp_id r = Some i \<Longrightarrow> pendingRequests c i = Some p
                \<Longrightarrow> settles p \<noteq> settles p0"
  proof
    fix r i p
    assume a: "r \<in> set rs" "resp_id r = Some i" "pendingRequests c i = Some p" "settles p = settles p0"
    have "i = i0" using Cons.prems(3) a r0(1,3) by (meson list.set_intros)
    then show False using others a by blast
  qed
  have pre2: "\<forall>r \<in> set rs. \<exists>i p. resp_id r = Some i \<and> i \<noteq> [] \<and> pendingRequests ?c1 i = Some p \<and>
            settles p < length (promises ?c1) \<and> promises ?c1 ! settles p = Unsettled"
  proof
    fix r assume r: "r \<in> set rs"
    then obtain i p where ip: "resp_id r = Some i" "i \<noteq> []" "pendingRequests c i = Some p"
      "settles p < length (promises c)" "promises c ! settles p = Unsettled"
      using Cons.prems(2) by (meson list.set_intros)
    have "promises ?c1 ! settles p = Unsettled"
      using apart [OF r ip(1,3)] ip(5) by (simp add: hit settle_def)
    then show "\<exists>i p. resp_id r = Some i \<and> i \<noteq> [] \<and> pendingRequests ?c1 i = Some p \<and>
            settles p < length (promises ?c1) \<and> promises ?c1 ! settles p = Unsettled"
      using ip keep [OF r ip(1)] len by auto
  qed
  have pre3: "\<forall>r \<in> set rs. \<forall>r' \<in> set rs. \<forall>i j p q.
            resp_id r = Some i \<and> resp_id r' = Some j \<and> pendingRequests ?c1 i = Some p \<and>
            pendingRequests ?c1 j = Some q \<and> settles p = settles q \<longrightarrow> i = j"
  proof (intro ballI allI impI)
    fix r r' i j p q
    assume a: "r \<in> set rs" "r' \<in> set rs"
      "resp_id r = Some i \<and> resp_id r' = Some j \<and> pendingRequests ?c1 i = Some p \<and>
            pendingRequests ?c1 j = Some q \<and> settles p = settles q"
    then have "pendingRequests c i = Some p" "pendingRequests c j = Some q"
      using keep by auto
    then show "i = j" using Cons.prems(3) a by (meson list.set_intros)
  qed
  have d: "distinct (map resp_id rs)" using Cons.prems(1) by simp
  note ih = Cons.IH [OF d pre2 pre3]
  have run1: "run (map (deliver sid) (r0 # rs)) c = run (map (deliver sid) rs) ?c1"
    by (simp add: deliver_def)
  show ?case
    unfolding run1
  proof (intro ballI allI impI)
    fix r i p
    assume r: "r \<in> set (r0 # rs)" and ip: "resp_id r = Some i \<and> pendingRequests c i = Some p"
    show "promises (run (map (deliver sid) rs) ?c1) ! settles p = Resolved r"
    proof (cases "r = r0")
      case True
      then have "p = p0" using ip r0 by simp
      moreover have "promises (run (map (deliver sid) rs) ?c1) ! settles p0 = Resolved r0"
        using deliveries_stable [of "settles p0" ?c1 sid rs] now len r0(4) by simp
      ultimately show ?thesis using True by simp
    next
      case False
      then have r': "r \<in> set rs" using r by simp
      have "pendingRequests ?c1 i = Some p" using keep [OF r'] ip by simp
      then show ?thesis using ih r' ip by blast
    qed
  qed
qed

lemma deliveries_untouched:
  assumes "\<forall>r \<in> set rs. \<forall>i p. resp_id r = Some i \<and> pendingRequests c i = Some p \<longrightarrow> settles p \<noteq> k"
  shows "promises (run (map (deliver sid) rs) c) ! k = promises c ! k"
  using assms
proof (induction rs arbitrary: c)
  case Nil
  then show ?case by simp
next
  case (Cons r0 rs)
  let ?c1 = "on_message sid (Parsed r0) c"
  have run1: "run (map (deliver sid) (r0 # rs)) c = run (map (deliver sid) rs) ?c1"
    by (simp add: deliver_def)
  have sub: "\<And>i p. pendingRequests ?c1 i = Some p \<Longrightarrow> pendingRequests c i = Some p"
    by (auto simp: on_message_def emit_def settle_call_def clearTimeout_def
          split: option.splits if_splits)
  have here: "promises ?c1 ! k = promises c ! k"
  proof (cases "\<exists>i p. resp_id r0 = Some i \<and> i \<noteq> [] \<and> pendingRequests c i = Some p")
    case True
    then obtain i p where ip: "resp_id r0 = Some i" "i \<noteq> []" "pendingRequests c i = Some p"
      by blast
    have "r0 \<in> set (r0 # rs)" by simp
    then have "settles p \<noteq> k" using Cons.prems ip(1,3) by blast
    then show ?thesis using on_message_hit(1) [OF ip, of sid] by (simp add: settle_def)
  next
    case False
    then have "promises ?c1 = promises c"
      by (auto simp: on_message_def emit_def split: option.splits)
    then show ?thesis by simp
  qed
  have "\<forall>r \<in> set rs. \<forall>i p. resp_id r = Some i \<and> pendingRequests ?c1 i = Some p \<longrightarrow> settles p \<noteq> k"
  proof (intro ballI allI impI)
    fix r i p
    assume a: "r \<in> set rs" "resp_id r = Some i \<and> pendingRequests ?c1 i = Some p"
    then have "r \<in> set (r0 # rs)" "pendingRequests c i = Some p" using sub by simp_all
    then show "settles p \<noteq> k" using Cons.prems a(2) by blast
  qed
  then show ?case unfolding run1 using Cons.IH [of ?c1] here by simp
qed

text \<open>
  C2. On a connected client, issue any number of commands whose generated ids are pairwise
  distinct, then let responses arrive in any order, at most one per id and each carrying
  the id of one of the calls. The promise of each call is resolved with exactly the
  response that carries its id, whatever the order of arrival, and the promise of a call
  whose response has not arrived is still unsettled: no response goes to another call.
  The ids come from the clock and the random generator, which are outside the embedding;
  that they do not collide is the hypothesis \<open>distinct\<close>.
\<close>

theorem correlation:
  assumes "isConnected c" and "distinct (map fst calls)" and "[] \<notin> set (map fst calls)"
    and "distinct (map resp_id rs)" and "set (map resp_id rs) \<subseteq> Some ` set (map fst calls)"
  shows "\<forall>k < length calls.
           (\<forall>r \<in> set rs. resp_id r = Some (fst (calls ! k)) \<longrightarrow>
              promises (run (map send_event calls @ map (deliver sid) rs) c) ! (length (promises c) + k)
                = Resolved r) \<and>
           ((\<forall>r \<in> set rs. resp_id r \<noteq> Some (fst (calls ! k))) \<longrightarrow>
              promises (run (map send_event calls @ map (deliver sid) rs) c) ! (length (promises c) + k)
                = Unsettled)"
proof (intro allI impI)
  fix k
  assume k: "k < length calls"
  let ?c1 = "run (map send_event calls) c"
  let ?final = "run (map send_event calls @ map (deliver sid) rs) c"
  note s = sends_issue [OF assms(1,2)]
  have final: "?final = run (map (deliver sid) rs) ?c1" by (simp add: run_append)
  have pend: "\<And>j. j < length calls \<Longrightarrow> \<exists>h. pendingRequests ?c1 (fst (calls ! j)) =
               Some \<lparr>settles = length (promises c) + j, timeout = h\<rparr>"
    using s by blast
  have proms: "promises ?c1 = promises c @ replicate (length calls) Unsettled" using s by blast
  have idx: "\<And>r. r \<in> set rs \<Longrightarrow> \<exists>j < length calls. resp_id r = Some (fst (calls ! j))"
  proof -
    fix r assume "r \<in> set rs"
    then have "resp_id r \<in> Some ` set (map fst calls)" using assms(5) by auto
    then obtain i where i: "i \<in> set (map fst calls)" "resp_id r = Some i" by auto
    then obtain j where "j < length (map fst calls)" "map fst calls ! j = i"
      by (meson in_set_conv_nth)
    then have "j < length calls" "fst (calls ! j) = i" by simp_all
    then show "\<exists>j < length calls. resp_id r = Some (fst (calls ! j))"
      using i(2) by blast
  qed
  have pre2: "\<forall>r \<in> set rs. \<exists>i p. resp_id r = Some i \<and> i \<noteq> [] \<and> pendingRequests ?c1 i = Some p \<and>
            settles p < length (promises ?c1) \<and> promises ?c1 ! settles p = Unsettled"
  proof
    fix r assume "r \<in> set rs"
    then obtain j where j: "j < length calls" "resp_id r = Some (fst (calls ! j))" using idx by blast
    obtain h where h: "pendingRequests ?c1 (fst (calls ! j)) =
               Some \<lparr>settles = length (promises c) + j, timeout = h\<rparr>" using pend j(1) by blast
    have ne: "fst (calls ! j) \<noteq> []" using assms(3) j(1) by (metis length_map nth_map nth_mem)
    have "promises ?c1 ! (length (promises c) + j) = Unsettled" using j(1) by (simp add: proms)
    then show "\<exists>i p. resp_id r = Some i \<and> i \<noteq> [] \<and> pendingRequests ?c1 i = Some p \<and>
            settles p < length (promises ?c1) \<and> promises ?c1 ! settles p = Unsettled"
      using j h ne by (auto simp: proms)
  qed
  have pre3: "\<forall>r \<in> set rs. \<forall>r' \<in> set rs. \<forall>i j p q.
            resp_id r = Some i \<and> resp_id r' = Some j \<and> pendingRequests ?c1 i = Some p \<and>
            pendingRequests ?c1 j = Some q \<and> settles p = settles q \<longrightarrow> i = j"
  proof (intro ballI allI impI)
    fix r r' i j p q
    assume a: "r \<in> set rs" "r' \<in> set rs"
      "resp_id r = Some i \<and> resp_id r' = Some j \<and> pendingRequests ?c1 i = Some p \<and>
            pendingRequests ?c1 j = Some q \<and> settles p = settles q"
    obtain m where m: "m < length calls" "resp_id r = Some (fst (calls ! m))" using idx a(1) by blast
    obtain n where n: "n < length calls" "resp_id r' = Some (fst (calls ! n))" using idx a(2) by blast
    have "settles p = length (promises c) + m" using pend [OF m(1)] m(2) a(3) by auto
    moreover have "settles q = length (promises c) + n" using pend [OF n(1)] n(2) a(3) by auto
    ultimately have "m = n" using a(3) by simp
    then show "i = j" using m n a(3) by simp
  qed
  obtain h where h: "pendingRequests ?c1 (fst (calls ! k)) =
               Some \<lparr>settles = length (promises c) + k, timeout = h\<rparr>" using pend k by blast
  have matched: "\<forall>r \<in> set rs. resp_id r = Some (fst (calls ! k)) \<longrightarrow>
          promises ?final ! (length (promises c) + k) = Resolved r"
  proof (intro ballI impI)
    fix r assume r: "r \<in> set rs" and id: "resp_id r = Some (fst (calls ! k))"
    have "promises (run (map (deliver sid) rs) ?c1) !
            settles \<lparr>settles = length (promises c) + k, timeout = h\<rparr> = Resolved r"
      using deliveries_resolve [OF assms(4) pre2 pre3, of sid] r id h by blast
    then show "promises ?final ! (length (promises c) + k) = Resolved r"
      by (simp add: final)
  qed
  have unmatched: "(\<forall>r \<in> set rs. resp_id r \<noteq> Some (fst (calls ! k))) \<longrightarrow>
          promises ?final ! (length (promises c) + k) = Unsettled"
  proof
    assume none: "\<forall>r \<in> set rs. resp_id r \<noteq> Some (fst (calls ! k))"
    have "\<forall>r \<in> set rs. \<forall>i p. resp_id r = Some i \<and> pendingRequests ?c1 i = Some p \<longrightarrow>
            settles p \<noteq> length (promises c) + k"
    proof (intro ballI allI impI)
      fix r i p
      assume r: "r \<in> set rs" and ip: "resp_id r = Some i \<and> pendingRequests ?c1 i = Some p"
      obtain m where m: "m < length calls" "resp_id r = Some (fst (calls ! m))" using idx r by blast
      have "m \<noteq> k" using none r m(2) by auto
      moreover have "settles p = length (promises c) + m" using pend [OF m(1)] m(2) ip by auto
      ultimately show "settles p \<noteq> length (promises c) + k" by simp
    qed
    then have "promises (run (map (deliver sid) rs) ?c1) ! (length (promises c) + k)
                 = promises ?c1 ! (length (promises c) + k)"
      by (rule deliveries_untouched)
    then show "promises ?final ! (length (promises c) + k) = Unsettled"
      using k by (simp add: final proms)
  qed
  show "(\<forall>r \<in> set rs. resp_id r = Some (fst (calls ! k)) \<longrightarrow>
              promises ?final ! (length (promises c) + k) = Resolved r) \<and>
           ((\<forall>r \<in> set rs. resp_id r \<noteq> Some (fst (calls ! k))) \<longrightarrow>
              promises ?final ! (length (promises c) + k) = Unsettled)"
    using matched unmatched by blast
qed

theorem correlation_witness:
  "isConnected just_opened \<and> distinct (map fst three_calls) \<and> [] \<notin> set (map fst three_calls) \<and>
   distinct (map resp_id reversed_replies) \<and>
   set (map resp_id reversed_replies) \<subseteq> Some ` set (map fst three_calls) \<and>
   promises (run (map send_event three_calls @ map (deliver 0) reversed_replies) just_opened) ! 0
     = Resolved (reply ''req_a'' ''1'') \<and>
   promises (run (map send_event three_calls @ map (deliver 0) reversed_replies) just_opened) ! 2
     = Resolved (reply ''req_c'' ''3'')"
proof -
  have h1: "isConnected just_opened" by (simp add: just_opened_def client_defs)
  have h2: "distinct (map fst three_calls)" by (simp add: three_calls_def)
  have h3: "[] \<notin> set (map fst three_calls)" by (simp add: three_calls_def)
  have h4: "distinct (map resp_id reversed_replies)" by (simp add: reversed_replies_def reply_def)
  have h5: "set (map resp_id reversed_replies) \<subseteq> Some ` set (map fst three_calls)"
    by (simp add: reversed_replies_def reply_def three_calls_def)
  have len: "length (promises just_opened) = 0" by (simp add: just_opened_def client_defs)
  have a: "reply ''req_a'' ''1'' \<in> set reversed_replies \<and> resp_id (reply ''req_a'' ''1'') = Some (fst (three_calls ! 0)) \<and> 0 < length three_calls"
    by (simp add: reversed_replies_def reply_def three_calls_def)
  have b: "reply ''req_c'' ''3'' \<in> set reversed_replies \<and> resp_id (reply ''req_c'' ''3'') = Some (fst (three_calls ! 2)) \<and> 2 < length three_calls"
    by (simp add: reversed_replies_def reply_def three_calls_def)
  show ?thesis
    using correlation [OF h1 h2 h3 h4 h5, of 0] h1 h2 h3 h4 h5 a b len by simp
qed

section \<open>Properties of the singleton client and of the status query\<close>

text \<open>
  C10. When the singleton exists, \<^verbatim>\<open>getPluginClient\<close> returns it and changes nothing,
  whatever host and port it is given. Only when the singleton is null do the arguments
  (or, without arguments, the defaults of the environment) make the client, and the
  singleton is null after \<^verbatim>\<open>resetPluginClient\<close>.
\<close>

theorem singleton_ignores_arguments:
  "(pluginClient s = Some c \<longrightarrow> getPluginClient e hostArg portArg s = (c, s)) \<and>
   (pluginClient s = None \<longrightarrow>
      getPluginClient e (Some h) (Some p) s = (PluginClient h p, s\<lparr>pluginClient := Some (PluginClient h p)\<rparr>) \<and>
      getPluginClient e None None s =
        (PluginClient (getDefaultHost e) (getDefaultPort e),
         s\<lparr>pluginClient := Some (PluginClient (getDefaultHost e) (getDefaultPort e))\<rparr>)) \<and>
   pluginClient (resetPluginClient s) = None"
  by (simp add: getPluginClient_def resetPluginClient_def Let_def split: option.splits)

theorem singleton_ignores_arguments_witness:
  "getPluginClient env0 (Some ''10.0.0.5'') (Some (Port 9300)) (fresh_modules\<lparr>pluginClient := Some other_client\<rparr>)
     = (other_client, fresh_modules\<lparr>pluginClient := Some other_client\<rparr>) \<and>
   fst (getPluginClient env0 (Some ''10.0.0.5'') (Some (Port 9300)) fresh_modules) = PluginClient ''10.0.0.5'' (Port 9300) \<and>
   fst (getPluginClient env0 (Some ''10.0.0.5'') (Some (Port 9300))
          (resetPluginClient (fresh_modules\<lparr>pluginClient := Some other_client\<rparr>)))
     = PluginClient ''10.0.0.5'' (Port 9300)"
proof -
  have a: "pluginClient (fresh_modules\<lparr>pluginClient := Some other_client\<rparr>) = Some other_client" by simp
  have b: "pluginClient fresh_modules = None" by (simp add: fresh_modules_def)
  have c: "resetPluginClient (fresh_modules\<lparr>pluginClient := Some other_client\<rparr>) = fresh_modules"
    by (simp add: resetPluginClient_def fresh_modules_def)
  show ?thesis
    using singleton_ignores_arguments [of "fresh_modules\<lparr>pluginClient := Some other_client\<rparr>" other_client env0 "Some ''10.0.0.5''" "Some (Port 9300)"]
      singleton_ignores_arguments [of fresh_modules other_client env0 "Some ''10.0.0.5''" "Some (Port 9300)" "''10.0.0.5''" "Port 9300"]
      a b c by simp
qed

text \<open>
  C9 as stated fails: in a fresh process the status query changes the state of the
  modules, since it makes the singleton client.
\<close>

theorem status_creates_singleton:
  "pluginClient fresh_modules = None \<and>
   pluginClient (snd (manageDriverSession env0 refuse Status None None fresh_modules))
     = Some (PluginClient ''localhost'' (Port 9223))"
  by (simp add: manageDriverSession_def getPluginClient_def fresh_modules_def env0_def
        getDefaultHost_def getDefaultPort_def Let_def)

text \<open>
  C9, as the code has it. The status query answers \<^verbatim>\<open>connected: true\<close> with the name, host
  and port of the current session exactly when the singleton client exists with an open
  channel and a current session is recorded, and the not-connected shape otherwise. It
  attempts no connection, and leaves the session record, the discovery object, the trace
  and an existing client as they are; when there is no singleton client it makes one, not
  connected, for the default host and port, and stores it.
\<close>

theorem status_reads:
  "manageDriverSession e net Status hostArg portArg s =
     (Some (JSON_stringify e
        (case pluginClient s of
           None \<Rightarrow> not_connected_reply
         | Some c \<Rightarrow>
             (case currentSession s of
                None \<Rightarrow> not_connected_reply
              | Some cs \<Rightarrow> if isConnected c then connected_reply cs else not_connected_reply))),
      s\<lparr>pluginClient :=
          Some (case pluginClient s of
                  None \<Rightarrow> PluginClient (getDefaultHost e) (getDefaultPort e)
                | Some c \<Rightarrow> c)\<rparr>)"
proof (cases "pluginClient s")
  case None
  have "\<not> isConnected (PluginClient h p)" for h p by (simp add: isConnected_def PluginClient_def)
  then show ?thesis using None
    by (simp add: manageDriverSession_def getPluginClient_def Let_def split: option.splits)
next
  case (Some c)
  then have "s\<lparr>pluginClient := Some c\<rparr> = s" by simp
  then show ?thesis using Some
    by (simp add: manageDriverSession_def getPluginClient_def Let_def split: option.splits)
qed

theorem status_reads_witness:
  "manageDriverSession env0 refuse Status None None attached_modules =
     (Some (JSON_stringify env0
        (connected_reply
           \<lparr>cs_name = ''Tauri App (localhost:9223)'', cs_host = ''localhost'', cs_port = Port 9223\<rparr>)),
      attached_modules) \<and>
   fst (manageDriverSession env0 refuse Status None None fresh_modules) =
     Some (JSON_stringify env0 not_connected_reply)"
proof -
  have c: "isConnected just_opened" by (simp add: just_opened_def client_defs)
  have a: "pluginClient attached_modules = Some just_opened"
    "currentSession attached_modules =
       Some \<lparr>cs_name = ''Tauri App (localhost:9223)'', cs_host = ''localhost'', cs_port = Port 9223\<rparr>"
    "attached_modules\<lparr>pluginClient := Some just_opened\<rparr> = attached_modules"
    by (simp_all add: attached_modules_def)
  have f: "pluginClient fresh_modules = None" by (simp add: fresh_modules_def)
  show ?thesis
    using status_reads [of env0 refuse None None attached_modules]
      status_reads [of env0 refuse None None fresh_modules]
    by (simp add: a c f)
qed

section \<open>Properties of the port scan\<close>

lemma attempt_fresh:
  "awaited 0 (attempt (Opens t) (PluginClient h p)) = Resolved ()"
  "uncaught (attempt (Opens t) (PluginClient h p)) = []"
  "awaited 0 (attempt (Invalid m) (PluginClient h p)) = Rejected m"
  "uncaught (attempt (Invalid m) (PluginClient h p)) = []"
  "awaited 0 (attempt (Errors t err) (PluginClient h p)) = Unsettled"
  "uncaught (attempt (Errors t err) (PluginClient h p)) = [err]"
  "awaited 0 (attempt Silent (PluginClient h p)) = Unsettled"
  "uncaught (attempt Silent (PluginClient h p)) = []"
  by (simp_all add: attempt_def awaited_def client_defs)

lemma attempt_opens: "attempt (Opens t) c = attempt (Opens 0) c"
  by (simp add: attempt_def)

lemma isPortInUse_cases:
  "isPortInUse net p (d, fx) =
     (case net (length fx) (d_host d) p of
        Invalid msg \<Rightarrow> (Some False, fx @ [Probe (d_host d) p])
      | Opens t \<Rightarrow> (Some (t < 100), fx @ [Probe (d_host d) p])
      | Errors t err \<Rightarrow>
          (if t < 100 then None else Some False, fx @ [Probe (d_host d) p, Uncaught err])
      | Silent \<Rightarrow> (Some False, fx @ [Probe (d_host d) p]))"
  by (simp add: isPortInUse_def settles_within_def attempt_fresh Let_def split: conn_outcome.splits)

lemma isPortInUse_grows: "\<exists>added. snd (isPortInUse net p (d, fx)) = fx @ added"
  by (simp add: isPortInUse_cases split: conn_outcome.splits)

lemma discover_loop_grows:
  "\<exists>added. snd (discover_loop net d offset (apps, fx)) = fx @ added"
proof (induction "maxPorts - offset" arbitrary: offset apps fx)
  case 0
  then show ?case by (simp add: discover_loop.simps [of net d offset])
next
  case (Suc n)
  have lt: "offset < maxPorts" using Suc.hyps(2) by simp
  have n: "n = maxPorts - Suc offset" using Suc.hyps(2) by simp
  obtain inUse fx' where i: "isPortInUse net (port_plus (basePort d) offset) (d, fx) = (inUse, fx')"
    by (cases "isPortInUse net (port_plus (basePort d) offset) (d, fx)")
  obtain a1 where a1: "fx' = fx @ a1"
    using isPortInUse_grows [of net "port_plus (basePort d) offset" d fx] i by auto
  show ?case
  proof (cases inUse)
    case None
    then show ?thesis using lt i a1 by (simp add: discover_loop.simps [of net d offset] Let_def)
  next
    case (Some b)
    obtain a2 where "snd (discover_loop net d (Suc offset)
        (if b then apps @ [\<lparr>a_host = d_host d, a_port = port_plus (basePort d) offset, available = True\<rparr>]
         else apps, fx')) = fx' @ a2"
      using Suc.hyps(1) [OF n] by blast
    then show ?thesis using lt i a1 Some
      by (simp add: discover_loop.simps [of net d offset] Let_def)
  qed
qed

lemma getFirstAvailableApp_grows:
  "\<exists>added. snd (getFirstAvailableApp net (d, fx)) = fx @ added"
  using discover_loop_grows [of net d 0 "[]" fx]
  by (simp add: getFirstAvailableApp_def discoverApps_def case_prod_beta)

text \<open>
  A probe whose socket reports an error before the timer of 100 ms fires ends the scan: the
  handler of the socket throws, the exception goes to the runtime, nothing is returned.
\<close>

lemma early_error_ends_scan:
  assumes "net (length fx) (d_host d) (basePort d) = Errors t err" and "t < 100"
  shows "discoverApps net (d, fx) = (None, fx @ [Probe (d_host d) (basePort d), Uncaught err])"
    and "getFirstAvailableApp net (d, fx) = (None, fx @ [Probe (d_host d) (basePort d), Uncaught err])"
proof -
  have p0: "port_plus (basePort d) 0 = basePort d" by (cases "basePort d") simp_all
  show "discoverApps net (d, fx) = (None, fx @ [Probe (d_host d) (basePort d), Uncaught err])"
    using assms
    by (simp add: discoverApps_def discover_loop.simps [of net d 0] maxPorts_def p0 isPortInUse_cases)
  then show "getFirstAvailableApp net (d, fx) = (None, fx @ [Probe (d_host d) (basePort d), Uncaught err])"
    by (simp add: getFirstAvailableApp_def)
qed

text \<open>
  The scan over a host on which no socket reports an error: all hundred ports are probed,
  in ascending order, and the ports in use are those whose connection opens in less than
  100 ms.
\<close>

lemma discover_loop_scan:
  assumes "offset \<le> maxPorts"
    and "\<forall>n p t err. net n (d_host d) p \<noteq> Errors t err"
  shows "discover_loop net d offset (apps, fx) =
           (Some (apps @ map (\<lambda>i. \<lparr>a_host = d_host d, a_port = port_plus (basePort d) i, available = True\<rparr>)
                     (filter (\<lambda>i. case net (length fx + (i - offset)) (d_host d) (port_plus (basePort d) i) of
                                     Opens t \<Rightarrow> t < 100 | Invalid msg \<Rightarrow> False
                                   | Errors t err \<Rightarrow> False | Silent \<Rightarrow> False)
                        [offset ..< maxPorts])),
            fx @ map (\<lambda>i. Probe (d_host d) (port_plus (basePort d) i)) [offset ..< maxPorts])"
  using assms(1)
proof (induction "maxPorts - offset" arbitrary: offset apps fx)
  case 0
  then have "offset = maxPorts" by simp
  then show ?case by (simp add: discover_loop.simps [of net d maxPorts])
next
  case (Suc n)
  let ?h = "d_host d"
  let ?p = "port_plus (basePort d) offset"
  let ?hit = "\<lambda>k i. case net (k + i) ?h (port_plus (basePort d) i) of
                        Opens t \<Rightarrow> t < 100 | Invalid msg \<Rightarrow> False
                      | Errors t err \<Rightarrow> False | Silent \<Rightarrow> False"
  have lt: "offset < maxPorts" using Suc.hyps(2) by simp
  have n: "n = maxPorts - Suc offset" and le: "Suc offset \<le> maxPorts" using Suc.hyps(2) by simp_all
  let ?b = "case net (length fx) ?h ?p of
              Opens t \<Rightarrow> t < 100 | Invalid msg \<Rightarrow> False | Errors t err \<Rightarrow> False | Silent \<Rightarrow> False"
  let ?apps' = "if ?b then apps @ [\<lparr>a_host = ?h, a_port = ?p, available = True\<rparr>] else apps"
  let ?fx' = "fx @ [Probe ?h ?p]"
  have probe: "isPortInUse net ?p (d, fx) = (Some ?b, ?fx')"
    using assms(2) by (simp add: isPortInUse_cases split: conn_outcome.splits)
  have unfold: "discover_loop net d offset (apps, fx) = discover_loop net d (Suc offset) (?apps', ?fx')"
    using lt by (simp add: discover_loop.simps [of net d offset] probe Let_def)
  note ih = Suc.hyps(1) [OF n le, of ?apps' ?fx']
  have range: "[offset ..< maxPorts] = offset # [Suc offset ..< maxPorts]"
    using lt by (simp add: upt_conv_Cons)
  have same: "filter (\<lambda>i. case net (length ?fx' + (i - Suc offset)) ?h (port_plus (basePort d) i) of
                            Opens t \<Rightarrow> t < 100 | Invalid msg \<Rightarrow> False
                          | Errors t err \<Rightarrow> False | Silent \<Rightarrow> False)
                 [Suc offset ..< maxPorts]
            = filter (\<lambda>i. case net (length fx + (i - offset)) ?h (port_plus (basePort d) i) of
                            Opens t \<Rightarrow> t < 100 | Invalid msg \<Rightarrow> False
                          | Errors t err \<Rightarrow> False | Silent \<Rightarrow> False)
                 [Suc offset ..< maxPorts]"
  proof (rule filter_cong [OF refl])
    fix i assume "i \<in> set [Suc offset ..< maxPorts]"
    then have "Suc offset \<le> i" by simp
    then have eq: "length ?fx' + (i - Suc offset) = length fx + (i - offset)" by simp
    show "(case net (length ?fx' + (i - Suc offset)) ?h (port_plus (basePort d) i) of
                  Opens t \<Rightarrow> t < 100 | Invalid msg \<Rightarrow> False
                | Errors t err \<Rightarrow> False | Silent \<Rightarrow> False)
             = (case net (length fx + (i - offset)) ?h (port_plus (basePort d) i) of
                  Opens t \<Rightarrow> t < 100 | Invalid msg \<Rightarrow> False
                | Errors t err \<Rightarrow> False | Silent \<Rightarrow> False)"
      by (simp only: eq)
  qed
  show ?case unfolding unfold ih same range by simp
qed

lemma filter_upt_first:
  assumes "filter P [a ..< c] = x # xs"
  shows "a \<le> x \<and> x < c \<and> P x \<and> (\<forall>q. a \<le> q \<and> q < x \<longrightarrow> \<not> P q)"
proof -
  have mem: "x \<in> set (filter P [a ..< c])" using assms by simp
  have sorted: "sorted_wrt (<) (filter P [a ..< c])"
    by (rule sorted_wrt_filter) (simp add: sorted_wrt_upt)
  have "\<not> P q" if q: "a \<le> q" "q < x" for q
  proof
    assume "P q"
    then have "q \<in> set (filter P [a ..< c])" using q mem by simp
    then have "q = x \<or> q \<in> set xs" using assms by simp
    moreover have "\<forall>y \<in> set xs. x < y" using sorted assms by simp
    ultimately show False using q(2) by auto
  qed
  then show ?thesis using mem by simp
qed

lemma discovery_scan_without_errors:
  assumes "\<forall>n p t err. net n (d_host d) p \<noteq> Errors t err"
  shows "discoverApps net (d, fx) =
           (Some (map (\<lambda>i. \<lparr>a_host = d_host d, a_port = port_plus (basePort d) i, available = True\<rparr>)
                    (filter (probe_finds net (d, fx)) [0 ..< 100])),
            fx @ map (\<lambda>i. Probe (d_host d) (port_plus (basePort d) i)) [0 ..< 100])"
    and "fst (getFirstAvailableApp net (d, fx)) = Some None \<longleftrightarrow>
           (\<forall>i < 100. \<not> probe_finds net (d, fx) i)"
    and "\<And>a. fst (getFirstAvailableApp net (d, fx)) = Some (Some a) \<Longrightarrow>
           \<exists>i < 100. a = \<lparr>a_host = d_host d, a_port = port_plus (basePort d) i, available = True\<rparr> \<and>
             probe_finds net (d, fx) i \<and> (\<forall>j < i. \<not> probe_finds net (d, fx) j)"
proof -
  let ?P = "probe_finds net (d, fx)"
  let ?mk = "\<lambda>i. \<lparr>a_host = d_host d, a_port = port_plus (basePort d) i, available = True\<rparr>"
  have P: "?P = (\<lambda>i. case net (length fx + (i - 0)) (d_host d) (port_plus (basePort d) i) of
                        Opens t \<Rightarrow> t < 100 | Invalid msg \<Rightarrow> False
                      | Errors t err \<Rightarrow> False | Silent \<Rightarrow> False)"
    by (simp add: probe_finds_def)
  show scan: "discoverApps net (d, fx) =
           (Some (map ?mk (filter ?P [0 ..< 100])),
            fx @ map (\<lambda>i. Probe (d_host d) (port_plus (basePort d) i)) [0 ..< 100])"
    using discover_loop_scan [of 0 net d "[]" fx] assms
    unfolding P by (simp add: discoverApps_def maxPorts_def)
  have first: "fst (getFirstAvailableApp net (d, fx)) =
                 Some (case filter ?P [0 ..< 100] of [] \<Rightarrow> None | i # rest \<Rightarrow> Some (?mk i))"
    by (simp add: getFirstAvailableApp_def scan split: list.splits)
  show "fst (getFirstAvailableApp net (d, fx)) = Some None \<longleftrightarrow> (\<forall>i < 100. \<not> ?P i)"
  proof (cases "filter ?P [0 ..< 100]")
    case Nil
    then show ?thesis unfolding first by (simp add: filter_empty_conv)
  next
    case (Cons i rest)
    then show ?thesis unfolding first using filter_upt_first [OF Cons] by auto
  qed
  fix a assume "fst (getFirstAvailableApp net (d, fx)) = Some (Some a)"
  then obtain i rest where l: "filter ?P [0 ..< 100] = i # rest" and a: "a = ?mk i"
    unfolding first by (auto split: list.splits)
  show "\<exists>i < 100. a = ?mk i \<and> ?P i \<and> (\<forall>j < i. \<not> ?P j)"
    using filter_upt_first [OF l] a by auto
qed

text \<open>
  With the ports 9224 and 9230 open and every other port silent, the scan from 9223 finds
  both and \<^verbatim>\<open>getFirstAvailableApp\<close> returns the endpoint of port 9224.
\<close>

lemma first_of_9224_9230:
  "fst (discoverApps silent_but_9224_9230 scan_from_9223)
     = Some [\<lparr>a_host = ''localhost'', a_port = Port 9224, available = True\<rparr>,
             \<lparr>a_host = ''localhost'', a_port = Port 9230, available = True\<rparr>] \<and>
   fst (getFirstAvailableApp silent_but_9224_9230 scan_from_9223)
     = Some (Some \<lparr>a_host = ''localhost'', a_port = Port 9224, available = True\<rparr>)"
proof -
  let ?d = "new_AppDiscovery env0 (Some ''localhost'') None"
  have d: "d_host ?d = ''localhost''" "basePort ?d = Port 9223"
    by (simp_all add: new_AppDiscovery_def env0_def getDefaultPort_def)
  have quiet: "\<forall>n p t err. silent_but_9224_9230 n (d_host ?d) p \<noteq> Errors t err"
    by (simp add: silent_but_9224_9230_def)
  have P: "probe_finds silent_but_9224_9230 (?d, []) = (\<lambda>i. i = Suc 0 \<or> i = 7)"
    by (auto simp: probe_finds_def silent_but_9224_9230_def d fun_eq_iff)
  have f: "filter (\<lambda>i. i = Suc 0 \<or> i = 7) [0 ..< 100] = [Suc 0, 7]"
    by code_simp
  have apps: "fst (discoverApps silent_but_9224_9230 scan_from_9223)
     = Some [\<lparr>a_host = ''localhost'', a_port = Port 9224, available = True\<rparr>,
             \<lparr>a_host = ''localhost'', a_port = Port 9230, available = True\<rparr>]"
    using discovery_scan_without_errors(1) [of silent_but_9224_9230 ?d "[]"] quiet
    by (simp add: scan_from_9223_def d P f)
  then show ?thesis
    by (simp add: getFirstAvailableApp_def case_prod_beta Let_def)
qed

text \<open>
  C8 fails at the first port of the range that refuses the connection. The scan is from
  port 9223 on \<^verbatim>\<open>localhost\<close>; port 9224 accepts connections, which open after 5 ms, and
  every other port refuses them, after 1 ms. The probe of port 9223 is a client without a
  listener of \<^verbatim>\<open>error\<close>: the handler of its socket throws at \<^verbatim>\<open>emit\<close>, outside the \<^verbatim>\<open>try\<close> of
  \<^verbatim>\<open>_isPortInUse\<close>, and the exception goes to the runtime. The error is not counted as a
  port not in use, port 9224 is never probed, and neither \<^verbatim>\<open>discoverApps\<close> nor
  \<^verbatim>\<open>getFirstAvailableApp\<close> returns anything, although a probe of port 9224 would find it.
\<close>

theorem refused_probe_ends_scan:
  "probe_finds refused_but_9224 scan_from_9223 1 \<and>
   discoverApps refused_but_9224 scan_from_9223 =
     (None, [Probe ''localhost'' (Port 9223), Uncaught ''Error: connect ECONNREFUSED'']) \<and>
   getFirstAvailableApp refused_but_9224 scan_from_9223 =
     (None, [Probe ''localhost'' (Port 9223), Uncaught ''Error: connect ECONNREFUSED''])"
proof -
  let ?d = "new_AppDiscovery env0 (Some ''localhost'') None"
  have d: "d_host ?d = ''localhost''" "basePort ?d = Port 9223"
    by (simp_all add: new_AppDiscovery_def env0_def getDefaultPort_def)
  have r: "refused_but_9224 (length ([]::effect list)) (d_host ?d) (basePort ?d) =
             Errors 1 ''Error: connect ECONNREFUSED''"
    by (simp add: refused_but_9224_def d)
  have live: "probe_finds refused_but_9224 scan_from_9223 1"
    by (simp add: probe_finds_def scan_from_9223_def refused_but_9224_def d)
  show ?thesis
    using early_error_ends_scan [of refused_but_9224 "[]" ?d 1 "''Error: connect ECONNREFUSED''"] r live
    by (simp add: scan_from_9223_def d)
qed

section \<open>Properties of the start of a session\<close>

lemma getAppDiscovery_facts:
  "d_host (fst (getAppDiscovery e h s)) = h"
  "snd (getAppDiscovery e h s) = s\<lparr>appDiscovery := Some (fst (getAppDiscovery e h s))\<rparr>"
  "map_of (activeSessions (fst (getAppDiscovery e h s))) (sessionId h p) =
     (case appDiscovery s of
        None \<Rightarrow> None
      | Some d \<Rightarrow> if d_host d = h then map_of (activeSessions d) (sessionId h p) else None)"
  by (auto simp: getAppDiscovery_def new_AppDiscovery_def Let_def split: option.splits)

lemma getAppDiscovery_registry:
  assumes "registry_ok s"
  shows "list_all (\<lambda>(k, x). s_host x = h) (activeSessions (fst (getAppDiscovery e h s)))"
  using assms
  by (auto simp: getAppDiscovery_def new_AppDiscovery_def registry_ok_def Let_def split: option.splits)

lemma connectToPort_cached:
  assumes "map_of (activeSessions d) (sessionId h p) = Some x" and "connected x"
  shows "connectToPort net p None (Some h) (d, fx) = (Resolved x, d, fx)"
  using assms by (simp add: connectToPort_def Let_def)

lemma connectToPort_dial:
  assumes "\<forall>x. map_of (activeSessions d) (sessionId h p) = Some x \<longrightarrow> \<not> connected x"
  shows "connectToPort net p None (Some h) (d, fx) =
     (case net (length fx) h p of
        Invalid msg \<Rightarrow>
          (Rejected (''Failed to connect to '' @ h @ '':'' @ port_to_string p @ '': '' @ msg),
           d, fx @ [Dial h p])
      | Opens t \<Rightarrow>
          (Resolved (dialled_session h p),
           d\<lparr>activeSessions := AList.update (sessionId h p) (dialled_session h p) (activeSessions d)\<rparr>,
           fx @ [Dial h p])
      | Errors t err \<Rightarrow> (Unsettled, d, fx @ [Dial h p, Uncaught err])
      | Silent \<Rightarrow> (Unsettled, d, fx @ [Dial h p]))"
proof -
  have dial: "(case map_of (activeSessions d) (sessionId h p) of
                 Some existing \<Rightarrow> if connected existing then (Resolved existing, d, fx) else X
               | None \<Rightarrow> X) = X" for X :: "SessionInfo promise \<times> AppDiscovery \<times> effect list"
    using assms by (cases "map_of (activeSessions d) (sessionId h p)") simp_all
  show ?thesis
  proof (cases "net (length fx) h p")
    case (Opens t)
    have a: "attempt (Opens t) (PluginClient h p) = attempt (Opens 0) (PluginClient h p)"
      by (rule attempt_opens)
    have r: "awaited 0 (attempt (Opens 0) (PluginClient h p)) = Resolved ()"
      "uncaught (attempt (Opens 0) (PluginClient h p)) = []"
      by (rule attempt_fresh)+
    show ?thesis using Opens
      by (simp add: connectToPort_def Let_def dial dialled_session_def truthy_def a r)
  qed (simp_all add: connectToPort_def Let_def dial truthy_def attempt_fresh)
qed

lemma getAppDiscovery_logged:
  "getAppDiscovery e h (s\<lparr>effects := fx\<rparr>) =
     (fst (getAppDiscovery e h s), s\<lparr>appDiscovery := Some (fst (getAppDiscovery e h s)), effects := fx\<rparr>)"
  by (simp add: getAppDiscovery_def Let_def split: option.splits)

lemma tryConnect_unfold:
  "tryConnect e net h p s =
     (as_current (fst (connectToPort net p None (Some h)
                         (fst (getAppDiscovery e h s), effects s @ [TryConnect h p]))),
      s\<lparr>appDiscovery := Some (fst (snd (connectToPort net p None (Some h)
                         (fst (getAppDiscovery e h s), effects s @ [TryConnect h p])))),
        effects := snd (snd (connectToPort net p None (Some h)
                         (fst (getAppDiscovery e h s), effects s @ [TryConnect h p])))\<rparr>)"
  by (simp add: tryConnect_def getAppDiscovery_logged as_current_def case_prod_beta)

lemma cached_lookup:
  "cached s h p \<longleftrightarrow>
     (\<exists>x. map_of (activeSessions (fst (getAppDiscovery e h s))) (sessionId h p) = Some x \<and> connected x)"
  by (auto simp: cached_def getAppDiscovery_facts(3) split: option.splits)

lemma not_cached_lookup:
  assumes "\<not> cached s h p"
  shows "\<forall>x. map_of (activeSessions (fst (getAppDiscovery e h s))) (sessionId h p) = Some x
          \<longrightarrow> \<not> connected x"
  using assms cached_lookup [of s h p e] by blast

lemma tryConnect_cached:
  assumes "cached s h p"
  shows "\<exists>x. tryConnect e net h p s =
           (Resolved \<lparr>cs_name = s_name x, cs_host = s_host x, cs_port = s_port x\<rparr>,
            s\<lparr>appDiscovery := Some (fst (getAppDiscovery e h s)),
              effects := effects s @ [TryConnect h p]\<rparr>) \<and>
           map_of (activeSessions (fst (getAppDiscovery e h s))) (sessionId h p) = Some x"
proof -
  obtain x where x: "map_of (activeSessions (fst (getAppDiscovery e h s))) (sessionId h p) = Some x"
    "connected x" using assms cached_lookup [of s h p e] by blast
  then show ?thesis by (simp add: tryConnect_unfold connectToPort_cached as_current_def)
qed

lemma tryConnect_dial:
  assumes "\<not> cached s h p"
  shows "tryConnect e net h p s =
     (case net (Suc (length (effects s))) h p of
        Invalid msg \<Rightarrow>
          (Rejected (''Failed to connect to '' @ h @ '':'' @ port_to_string p @ '': '' @ msg),
           s\<lparr>appDiscovery := Some (fst (getAppDiscovery e h s)),
             effects := effects s @ [TryConnect h p, Dial h p]\<rparr>)
      | Opens t \<Rightarrow>
          (Resolved \<lparr>cs_name = ''Tauri App ('' @ h @ '':'' @ port_to_string p @ '')'',
                     cs_host = h, cs_port = p\<rparr>,
           s\<lparr>appDiscovery := Some ((fst (getAppDiscovery e h s))
                \<lparr>activeSessions := AList.update (sessionId h p) (dialled_session h p)
                    (activeSessions (fst (getAppDiscovery e h s)))\<rparr>),
             effects := effects s @ [TryConnect h p, Dial h p]\<rparr>)
      | Errors t err \<Rightarrow>
          (Unsettled,
           s\<lparr>appDiscovery := Some (fst (getAppDiscovery e h s)),
             effects := effects s @ [TryConnect h p, Dial h p, Uncaught err]\<rparr>)
      | Silent \<Rightarrow>
          (Unsettled,
           s\<lparr>appDiscovery := Some (fst (getAppDiscovery e h s)),
             effects := effects s @ [TryConnect h p, Dial h p]\<rparr>))"
  using not_cached_lookup [OF assms, of e]
  by (cases "net (Suc (length (effects s))) h p")
    (simp_all add: tryConnect_unfold connectToPort_dial as_current_def dialled_session_def)

lemma tryConnect_fails:
  assumes "\<not> cached s h p" and "net (Suc (length (effects s))) h p = Invalid msg"
  shows "tryConnect e net h p s =
           (Rejected (''Failed to connect to '' @ h @ '':'' @ port_to_string p @ '': '' @ msg),
            s\<lparr>appDiscovery := Some (fst (getAppDiscovery e h s)),
              effects := effects s @ [TryConnect h p, Dial h p]\<rparr>)"
  using assms(2) by (simp add: tryConnect_dial [OF assms(1)])

lemma tryConnect_throws:
  assumes "\<not> cached s h p" and "net (Suc (length (effects s))) h p = Errors t err"
  shows "tryConnect e net h p s =
           (Unsettled,
            s\<lparr>appDiscovery := Some (fst (getAppDiscovery e h s)),
              effects := effects s @ [TryConnect h p, Dial h p, Uncaught err]\<rparr>)"
  using assms(2) by (simp add: tryConnect_dial [OF assms(1)])

lemma tryConnect_opens:
  assumes "\<not> cached s h p" and "net (Suc (length (effects s))) h p = Opens t"
  shows "tryConnect e net h p s =
           (Resolved \<lparr>cs_name = ''Tauri App ('' @ h @ '':'' @ port_to_string p @ '')'',
                      cs_host = h, cs_port = p\<rparr>,
            s\<lparr>appDiscovery := Some ((fst (getAppDiscovery e h s))
                 \<lparr>activeSessions := AList.update (sessionId h p) (dialled_session h p)
                     (activeSessions (fst (getAppDiscovery e h s)))\<rparr>),
              effects := effects s @ [TryConnect h p, Dial h p]\<rparr>)"
  using assms(2) by (simp add: tryConnect_dial [OF assms(1)])

lemma tryConnect_effects:
  "effects (snd (tryConnect e net h p s)) = effects s @ [TryConnect h p] \<or>
   effects (snd (tryConnect e net h p s)) = effects s @ [TryConnect h p, Dial h p] \<or>
   (\<exists>err. effects (snd (tryConnect e net h p s)) = effects s @ [TryConnect h p, Dial h p, Uncaught err])"
proof (cases "cached s h p")
  case True
  then show ?thesis using tryConnect_cached [of s h p e net] by auto
next
  case False
  then show ?thesis
    by (cases "net (Suc (length (effects s))) h p") (simp_all add: tryConnect_dial)
qed

lemma tryConnect_resolved_effects:
  assumes "fst (tryConnect e net h p s) = Resolved session"
  shows "effects (snd (tryConnect e net h p s)) = effects s @ [TryConnect h p] \<or>
         effects (snd (tryConnect e net h p s)) = effects s @ [TryConnect h p, Dial h p]"
proof (cases "cached s h p")
  case True
  then show ?thesis using tryConnect_cached [of s h p e net] by auto
next
  case False
  then show ?thesis using assms
    by (cases "net (Suc (length (effects s))) h p") (simp_all add: tryConnect_dial)
qed

lemma tryConnect_keeps:
  "pluginClient (snd (tryConnect e net h p s)) = pluginClient s"
  "currentSession (snd (tryConnect e net h p s)) = currentSession s"
  "initialized (snd (tryConnect e net h p s)) = initialized s"
  by (simp_all add: tryConnect_unfold)

lemma tryConnect_discovery_host:
  "\<exists>d. appDiscovery (snd (tryConnect e net h p s)) = Some d \<and> d_host d = h"
proof (cases "cached s h p")
  case True
  then show ?thesis using tryConnect_cached [of s h p e net] by (auto simp: getAppDiscovery_facts(1))
next
  case False
  then show ?thesis
    by (cases "net (Suc (length (effects s))) h p")
      (simp_all add: tryConnect_dial getAppDiscovery_facts(1))
qed

lemma tryConnect_host:
  assumes "registry_ok s" and "fst (tryConnect e net h p s) = Resolved session"
  shows "cs_host session = h"
proof (cases "cached s h p")
  case True
  then obtain x where x: "map_of (activeSessions (fst (getAppDiscovery e h s))) (sessionId h p) = Some x"
    "connected x" using cached_lookup [of s h p e] by blast
  have "(sessionId h p, x) \<in> set (activeSessions (fst (getAppDiscovery e h s)))"
    using x(1) by (rule map_of_SomeD)
  then have "s_host x = h"
    using getAppDiscovery_registry [OF assms(1), of h e] by (auto simp: list_all_iff)
  then show ?thesis using assms(2) x
    by (auto simp: tryConnect_unfold connectToPort_cached as_current_def)
next
  case False
  then show ?thesis using assms(2)
    by (cases "net (Suc (length (effects s))) h p") (auto simp: tryConnect_dial)
qed

lemma registry_ok_fields [simp]:
  "registry_ok (s\<lparr>currentSession := cs\<rparr>) = registry_ok s"
  "registry_ok (s\<lparr>effects := fx\<rparr>) = registry_ok s"
  "registry_ok (s\<lparr>pluginClient := pc\<rparr>) = registry_ok s"
  "registry_ok (s\<lparr>initialized := b\<rparr>) = registry_ok s"
  by (simp_all add: registry_ok_def)

lemma cached_fields [simp]:
  "cached (s\<lparr>currentSession := cs\<rparr>) h p = cached s h p"
  "cached (s\<lparr>effects := fx\<rparr>) h p = cached s h p"
  "cached (s\<lparr>pluginClient := pc\<rparr>) h p = cached s h p"
  by (simp_all add: cached_def)

lemma resetPluginClient_facts [simp]:
  "effects (resetPluginClient s) = effects s"
  "appDiscovery (resetPluginClient s) = appDiscovery s"
  "currentSession (resetPluginClient s) = currentSession s"
  "registry_ok (resetPluginClient s) = registry_ok s"
  "cached (resetPluginClient s) h p = cached s h p"
  by (simp_all add: resetPluginClient_def split: option.splits)

lemma list_all_update:
  assumes "list_all P xs" and "P (k, v)"
  shows "list_all P (AList.update k v xs)"
  using assms by (induction xs) auto

lemma tryConnect_registry:
  assumes "registry_ok s"
  shows "registry_ok (snd (tryConnect e net h p s))"
proof -
  let ?d = "fst (getAppDiscovery e h s)"
  have reg: "list_all (\<lambda>(k, x). s_host x = h) (activeSessions ?d)"
    by (rule getAppDiscovery_registry [OF assms])
  have host: "d_host ?d = h" by (rule getAppDiscovery_facts(1))
  have upd: "list_all (\<lambda>(k, x). s_host x = h)
               (AList.update (sessionId h p) (dialled_session h p) (activeSessions ?d))"
    by (rule list_all_update [OF reg]) (simp add: dialled_session_def)
  show ?thesis
  proof (cases "cached s h p")
    case True
    then show ?thesis using reg host tryConnect_cached [of s h p e net]
      by (auto simp: registry_ok_def)
  next
    case False
    then show ?thesis using reg host upd
      by (cases "net (Suc (length (effects s))) h p")
        (simp_all add: tryConnect_dial registry_ok_def)
  qed
qed

lemma getAppDiscovery_registry_ok:
  assumes "registry_ok s"
  shows "registry_ok (snd (getAppDiscovery e h s))"
  using assms
  by (auto simp: getAppDiscovery_def new_AppDiscovery_def registry_ok_def Let_def split: option.splits)

lemma getAppDiscovery_effects [simp]:
  "effects (snd (getAppDiscovery e h s)) = effects s"
  by (simp add: getAppDiscovery_def Let_def split: option.splits)

lemma grows_refl [simp]: "grows s s"
  by (simp add: grows_def)

lemma grows_trans: "grows s s' \<Longrightarrow> grows s' s'' \<Longrightarrow> grows s s''"
  by (auto simp: grows_def)

lemma grows_fields [simp]:
  "grows s (s'\<lparr>currentSession := cs\<rparr>) = grows s s'"
  "grows (resetPluginClient s) s' = grows s s'"
  "grows s (resetPluginClient s') = grows s s'"
  by (simp_all add: grows_def)

lemma tryConnect_grows: "grows s (snd (tryConnect e net h p s))"
  using tryConnect_effects [of e net h p s] by (auto simp: grows_def)

lemma strategy4_facts:
  "grows s (snd (strategy4 e net ch cp s))"
  "registry_ok s \<Longrightarrow> registry_ok (snd (strategy4 e net ch cp s))"
proof -
  obtain r s1 where t: "tryConnect e net ch cp (resetPluginClient s) = (r, s1)"
    by (cases "tryConnect e net ch cp (resetPluginClient s)")
  have g: "grows s s1" using tryConnect_grows [of "resetPluginClient s" e net ch cp] t by simp
  show "grows s (snd (strategy4 e net ch cp s))"
    using g t by (simp add: strategy4_def split: promise.splits)
  assume "registry_ok s"
  then have "registry_ok s1" using tryConnect_registry [of "resetPluginClient s" e net ch cp] t by simp
  then show "registry_ok (snd (strategy4 e net ch cp s))"
    using t by (simp add: strategy4_def split: promise.splits)
qed

lemma after_discovery_facts:
  "grows s (snd (after_discovery e net ch cp ex s))"
  "registry_ok s \<Longrightarrow> registry_ok (snd (after_discovery e net ch cp ex s))"
  by (simp_all add: after_discovery_def strategy4_facts)

lemma strategy3_facts:
  "grows s (snd (strategy3 e net ch cp ex s))"
  "registry_ok s \<Longrightarrow> registry_ok (snd (strategy3 e net ch cp ex s))"
proof -
  obtain d s1 where g: "getAppDiscovery e ''localhost'' s = (d, s1)"
    by (cases "getAppDiscovery e ''localhost'' s")
  obtain firstApp fx where f: "getFirstAvailableApp net (d, effects s1) = (firstApp, fx)"
    by (cases "getFirstAvailableApp net (d, effects s1)")
  let ?s2 = "s1\<lparr>effects := fx\<rparr>"
  have e1: "effects s1 = effects s" using g getAppDiscovery_effects [of e "''localhost''" s] by simp
  obtain added where fx: "fx = effects s @ added"
    using f getFirstAvailableApp_grows [of net d "effects s1"] e1 by auto
  have g2: "grows s ?s2" using fx by (simp add: grows_def)
  have r2: "registry_ok s \<Longrightarrow> registry_ok ?s2"
    using g getAppDiscovery_registry_ok [of s e "''localhost''"] by simp
  show "grows s (snd (strategy3 e net ch cp ex s))"
  proof (cases ex)
    case True
    then show ?thesis by (simp add: strategy3_def after_discovery_facts)
  next
    case False
    show ?thesis
    proof (cases firstApp)
      case None
      then show ?thesis using False g f g2 by (simp add: strategy3_def)
    next
      case (Some found)
      show ?thesis
      proof (cases found)
        case None
        then show ?thesis using False g f Some grows_trans [OF g2 after_discovery_facts(1)]
          by (simp add: strategy3_def)
      next
        case (Some app)
        obtain r s3 where t: "tryConnect e net ''localhost'' (a_port app) (resetPluginClient ?s2) = (r, s3)"
          by (cases "tryConnect e net ''localhost'' (a_port app) (resetPluginClient ?s2)")
        have "grows ?s2 s3"
          using tryConnect_grows [of "resetPluginClient ?s2" e net "''localhost''" "a_port app"] t by simp
        then have g3: "grows s s3" using g2 grows_trans by blast
        then show ?thesis
          using False g f \<open>firstApp = Some found\<close> Some t grows_trans [OF g3 after_discovery_facts(1)]
          by (simp add: strategy3_def split: promise.splits)
      qed
    qed
  qed
  assume ok: "registry_ok s"
  show "registry_ok (snd (strategy3 e net ch cp ex s))"
  proof (cases ex)
    case True
    then show ?thesis using ok by (simp add: strategy3_def after_discovery_facts)
  next
    case False
    show ?thesis
    proof (cases firstApp)
      case None
      then show ?thesis using False g f r2 [OF ok] by (simp add: strategy3_def)
    next
      case (Some found)
      show ?thesis
      proof (cases found)
        case None
        then show ?thesis using False g f Some r2 [OF ok] after_discovery_facts(2)
          by (simp add: strategy3_def)
      next
        case (Some app)
        obtain r s3 where t: "tryConnect e net ''localhost'' (a_port app) (resetPluginClient ?s2) = (r, s3)"
          by (cases "tryConnect e net ''localhost'' (a_port app) (resetPluginClient ?s2)")
        have "registry_ok s3"
          using tryConnect_registry [of "resetPluginClient ?s2" e net "''localhost''" "a_port app"] t r2 [OF ok]
          by simp
        then show ?thesis
          using False g f \<open>firstApp = Some found\<close> Some t after_discovery_facts(2)
          by (simp add: strategy3_def split: promise.splits)
      qed
    qed
  qed
qed

lemma strategy2_facts:
  "grows s (snd (strategy2 e net ch cp ex s))"
  "registry_ok s \<Longrightarrow> registry_ok (snd (strategy2 e net ch cp ex s))"
proof -
  obtain r s1 where t: "tryConnect e net ch cp s = (r, s1)" by (cases "tryConnect e net ch cp s")
  have g: "grows s s1" using tryConnect_grows [of s e net ch cp] t by simp
  show "grows s (snd (strategy2 e net ch cp ex s))"
    using g t grows_trans [OF g strategy3_facts(1)] by (simp add: strategy2_def split: promise.splits)
  assume "registry_ok s"
  then have "registry_ok s1" using tryConnect_registry [of s e net ch cp] t by simp
  then show "registry_ok (snd (strategy2 e net ch cp ex s))"
    using t strategy3_facts(2) by (simp add: strategy2_def split: promise.splits)
qed

lemma strategy1_registry:
  assumes "registry_ok s"
  shows "registry_ok (snd (strategy1 e net ch cp ex s))"
proof -
  obtain r s1 where t: "tryConnect e net ''localhost'' cp s = (r, s1)"
    by (cases "tryConnect e net ''localhost'' cp s")
  have "registry_ok s1" using tryConnect_registry [OF assms, of e net "''localhost''" cp] t by simp
  then show ?thesis
    using t assms strategy2_facts(2) by (simp add: strategy1_def split: promise.splits)
qed

lemma registry_ok_fresh: "registry_ok fresh_modules"
  by (simp add: registry_ok_def fresh_modules_def)

lemma registry_ok_manageDriverSession:
  assumes "registry_ok s"
  shows "registry_ok (snd (manageDriverSession e net act hostArg portArg s))"
proof (cases act)
  case Start
  then show ?thesis using assms by (simp add: manageDriverSession_def Let_def strategy1_registry)
next
  case Stop
  then show ?thesis
    by (simp add: manageDriverSession_def Let_def resetInitialization_def registry_ok_def
          disconnectAll_def resetPluginClient_def split: option.splits)
next
  case Status
  then show ?thesis using assms
    by (simp add: manageDriverSession_def getPluginClient_def Let_def split: option.splits)
qed

lemma start_unfold:
  "manageDriverSession e net Start hostArg portArg s =
     strategy1 e net (configured_host e hostArg) (configured_port e portArg)
       (port_is_explicit e portArg) (resetPluginClient s)"
  by (simp add: manageDriverSession_def configured_host_def configured_port_def
        port_is_explicit_def Let_def)

text \<open>
  When both connections end in a rejected promise, as they do when the constructor of the
  socket throws, \<^verbatim>\<open>start\<close> with an explicit port returns the diagnostic that names the
  configured host and port and says that auto-discovery is disabled, and all it tried is
  the configured port.
\<close>

lemma explicit_port_diagnostic:
  assumes "portArg \<noteq> None \<or> isPortExplicitlyConfigured e"
    and "\<forall>n. \<exists>msg. net n ''localhost'' (configured_port e portArg) = Invalid msg"
    and "\<forall>n. \<exists>msg. net n (configured_host e hostArg) (configured_port e portArg) = Invalid msg"
    and "\<not> cached s (if configured_host e hostArg = ''localhost'' \<or> configured_host e hostArg = ''127.0.0.1''
                      then configured_host e hostArg else ''localhost'') (configured_port e portArg)"
  shows "fst (manageDriverSession e net Start hostArg portArg s) =
           Some (explicit_failure_message (configured_host e hostArg) (configured_port e portArg)) \<and>
         currentSession (snd (manageDriverSession e net Start hostArg portArg s)) = None \<and>
         effects (snd (manageDriverSession e net Start hostArg portArg s)) =
           effects s @
           (if configured_host e hostArg = ''localhost'' \<or> configured_host e hostArg = ''127.0.0.1''
            then [TryConnect (configured_host e hostArg) (configured_port e portArg),
                  Dial (configured_host e hostArg) (configured_port e portArg)]
            else [TryConnect ''localhost'' (configured_port e portArg),
                  Dial ''localhost'' (configured_port e portArg),
                  TryConnect (configured_host e hostArg) (configured_port e portArg),
                  Dial (configured_host e hostArg) (configured_port e portArg)])"
proof -
  let ?ch = "configured_host e hostArg" and ?cp = "configured_port e portArg"
  let ?s0 = "resetPluginClient s"
  have second: "fst (strategy2 e net ?ch ?cp True s') =
                  Some (explicit_failure_message ?ch ?cp) \<and>
                currentSession (snd (strategy2 e net ?ch ?cp True s')) = None \<and>
                effects (snd (strategy2 e net ?ch ?cp True s')) =
                  effects s' @ [TryConnect ?ch ?cp, Dial ?ch ?cp]"
    if nc: "\<not> cached s' ?ch ?cp" for s'
  proof -
    obtain msg where "net (Suc (length (effects s'))) ?ch ?cp = Invalid msg" using assms(3) by blast
    then show ?thesis
      using tryConnect_fails [of s' ?ch ?cp net msg e] nc
      by (simp add: strategy2_def strategy3_def after_discovery_def)
  qed
  have ex: "port_is_explicit e portArg" using assms(1) by (simp add: port_is_explicit_def)
  show ?thesis
  proof (cases "?ch = ''localhost'' \<or> ?ch = ''127.0.0.1''")
    case True
    then have nc: "\<not> cached ?s0 ?ch ?cp" using assms(4) by simp
    have "strategy1 e net ?ch ?cp True ?s0 = strategy2 e net ?ch ?cp True ?s0"
      using True by (auto simp: strategy1_def)
    then show ?thesis using second [OF nc] True ex by (simp add: start_unfold)
  next
    case False
    then have nc: "\<not> cached ?s0 ''localhost'' ?cp" using assms(4) by simp
    obtain msg where msg: "net (Suc (length (effects ?s0))) ''localhost'' ?cp = Invalid msg"
      using assms(2) by blast
    have t: "tryConnect e net ''localhost'' ?cp ?s0 =
           (Rejected (''Failed to connect to '' @ ''localhost'' @ '':'' @ port_to_string ?cp @ '': '' @ msg),
            ?s0\<lparr>appDiscovery := Some (fst (getAppDiscovery e ''localhost'' ?s0)),
              effects := effects ?s0 @ [TryConnect ''localhost'' ?cp, Dial ''localhost'' ?cp]\<rparr>)"
      using tryConnect_fails [of ?s0 "''localhost''" ?cp net msg e] nc msg by blast
    let ?s1 = "?s0\<lparr>appDiscovery := Some (fst (getAppDiscovery e ''localhost'' ?s0)),
                   effects := effects ?s0 @ [TryConnect ''localhost'' ?cp, Dial ''localhost'' ?cp]\<rparr>"
    have "d_host (fst (getAppDiscovery e ''localhost'' ?s0)) \<noteq> ?ch"
      using False by (auto simp: getAppDiscovery_facts(1))
    then have "\<not> cached ?s1 ?ch ?cp"
      by (simp add: cached_def)
    note s = second [OF this]
    have "strategy1 e net ?ch ?cp True ?s0 = strategy2 e net ?ch ?cp True ?s1"
      using False t by (simp add: strategy1_def)
    then show ?thesis using s False ex by (simp add: start_unfold)
  qed
qed

text \<open>
  With \<^verbatim>\<open>MCP_BRIDGE_PORT\<close> set to \<^verbatim>\<open>abc\<close> the port is \<^verbatim>\<open>NaN\<close> and counts as explicit; the
  diagnostic then names the port \<^verbatim>\<open>NaN\<close>.
\<close>

lemma nan_port_diagnostic:
  "fst (manageDriverSession env_port_abc invalid_url Start None None fresh_modules) =
     Some (''Failed to connect to Tauri app at localhost:NaN. '' @
           ''Port NaN was explicitly configured - auto-discovery disabled. '' @
           ''Ensure your Tauri app is running with the MCP Bridge plugin on this port.'') \<and>
   effects (snd (manageDriverSession env_port_abc invalid_url Start None None fresh_modules)) =
     [TryConnect ''localhost'' NaN, Dial ''localhost'' NaN]"
proof -
  have h1: "None \<noteq> (None :: port option) \<or> isPortExplicitlyConfigured env_port_abc"
    by (simp add: isPortExplicitlyConfigured_def truthy_def env_port_abc_def env0_def)
  have ch: "configured_host env_port_abc None = ''localhost''"
    by (simp add: configured_host_def getDefaultHost_def env_port_abc_def env0_def)
  have cp: "configured_port env_port_abc None = NaN"
    by (simp add: configured_port_def getDefaultPort_def env_port_abc_def env0_def)
  have h2: "\<forall>n. \<exists>msg. invalid_url n ''localhost'' (configured_port env_port_abc None) = Invalid msg"
    by (simp add: invalid_url_def)
  have h3: "\<forall>n. \<exists>msg. invalid_url n (configured_host env_port_abc None) (configured_port env_port_abc None) = Invalid msg"
    by (simp add: invalid_url_def)
  have h4: "\<not> cached fresh_modules
              (if configured_host env_port_abc None = ''localhost'' \<or>
                  configured_host env_port_abc None = ''127.0.0.1''
               then configured_host env_port_abc None else ''localhost'')
              (configured_port env_port_abc None)"
    by (simp add: cached_def fresh_modules_def)
  have fx: "effects fresh_modules = []" by (simp add: fresh_modules_def)
  show ?thesis
    using explicit_port_diagnostic [of None env_port_abc invalid_url None fresh_modules]
      h1 h2 h3 h4
    by (simp add: ch cp explicit_failure_message_def fx)
qed

text \<open>
  C3 fails where a connection fails by an error of its socket, as a refused connection
  does. Let \<^verbatim>\<open>start\<close> be called with an explicit port, let the socket of the first
  connection it makes, to the loopback host or, when the configured host is a loopback
  address, to that host, report an error, and let no session for that endpoint be held as
  connected in the registry. The client that \<^verbatim>\<open>connectToPort\<close> made has no listener of
  \<^verbatim>\<open>error\<close>, so the handler of the socket throws at \<^verbatim>\<open>emit\<close> and never rejects the promise of
  \<^verbatim>\<open>connect\<close>: the exception goes to the runtime, the call returns nothing, no diagnostic
  among it, the current session is left as it was, and the configured host is not tried
  when it is not a loopback address.
\<close>

theorem refused_dial_ends_start:
  assumes "portArg \<noteq> None \<or> isPortExplicitlyConfigured e"
    and "net (Suc (length (effects s)))
           (if configured_host e hostArg = ''localhost'' \<or> configured_host e hostArg = ''127.0.0.1''
            then configured_host e hostArg else ''localhost'')
           (configured_port e portArg) = Errors t err"
    and "\<not> cached s (if configured_host e hostArg = ''localhost'' \<or> configured_host e hostArg = ''127.0.0.1''
                      then configured_host e hostArg else ''localhost'') (configured_port e portArg)"
  shows "fst (manageDriverSession e net Start hostArg portArg s) = None \<and>
         currentSession (snd (manageDriverSession e net Start hostArg portArg s)) = currentSession s \<and>
         effects (snd (manageDriverSession e net Start hostArg portArg s)) =
           effects s @
           [TryConnect (if configured_host e hostArg = ''localhost'' \<or> configured_host e hostArg = ''127.0.0.1''
                        then configured_host e hostArg else ''localhost'') (configured_port e portArg),
            Dial (if configured_host e hostArg = ''localhost'' \<or> configured_host e hostArg = ''127.0.0.1''
                  then configured_host e hostArg else ''localhost'') (configured_port e portArg),
            Uncaught err]"
proof -
  let ?ch = "configured_host e hostArg" and ?cp = "configured_port e portArg"
  let ?ex = "port_is_explicit e portArg"
  let ?s0 = "resetPluginClient s"
  let ?h = "if ?ch = ''localhost'' \<or> ?ch = ''127.0.0.1'' then ?ch else ''localhost''"
  have nc: "\<not> cached ?s0 ?h ?cp" using assms(3) by simp
  have n: "net (Suc (length (effects ?s0))) ?h ?cp = Errors t err" using assms(2) by simp
  have t: "tryConnect e net ?h ?cp ?s0 =
             (Unsettled,
              ?s0\<lparr>appDiscovery := Some (fst (getAppDiscovery e ?h ?s0)),
                 effects := effects ?s0 @ [TryConnect ?h ?cp, Dial ?h ?cp, Uncaught err]\<rparr>)"
    using tryConnect_throws [of ?s0 ?h ?cp net t err e] nc n by blast
  show ?thesis
  proof (cases "?ch = ''localhost'' \<or> ?ch = ''127.0.0.1''")
    case True
    then have h: "?h = ?ch" by simp
    have "strategy1 e net ?ch ?cp ?ex ?s0 = strategy2 e net ?ch ?cp ?ex ?s0"
      using True by (auto simp: strategy1_def)
    then show ?thesis using t True unfolding h
      by (simp add: start_unfold strategy2_def)
  next
    case False
    then have h: "?h = ''localhost''" by simp
    show ?thesis using t False unfolding h
      by (simp add: start_unfold strategy1_def)
  qed
qed

theorem refused_dial_ends_start_witness:
  "fst (manageDriverSession env0 refuse Start (Some ''10.0.0.5'') (Some (Port 9300)) fresh_modules) = None \<and>
   currentSession (snd (manageDriverSession env0 refuse Start (Some ''10.0.0.5'') (Some (Port 9300)) fresh_modules)) = None \<and>
   effects (snd (manageDriverSession env0 refuse Start (Some ''10.0.0.5'') (Some (Port 9300)) fresh_modules)) =
     [TryConnect ''localhost'' (Port 9300), Dial ''localhost'' (Port 9300),
      Uncaught ''Error: connect ECONNREFUSED'']"
proof -
  have h1: "Some (Port 9300) \<noteq> None \<or> isPortExplicitlyConfigured env0" by simp
  have ch: "configured_host env0 (Some ''10.0.0.5'') = ''10.0.0.5''" by (simp add: configured_host_def)
  have cp: "configured_port env0 (Some (Port 9300)) = Port 9300" by (simp add: configured_port_def)
  have h2: "refuse (Suc (length (effects fresh_modules)))
              (if configured_host env0 (Some ''10.0.0.5'') = ''localhost'' \<or>
                  configured_host env0 (Some ''10.0.0.5'') = ''127.0.0.1''
               then configured_host env0 (Some ''10.0.0.5'') else ''localhost'')
              (configured_port env0 (Some (Port 9300))) = Errors 1 ''Error: connect ECONNREFUSED''"
    by (simp add: refuse_def)
  have h3: "\<not> cached fresh_modules
              (if configured_host env0 (Some ''10.0.0.5'') = ''localhost'' \<or>
                  configured_host env0 (Some ''10.0.0.5'') = ''127.0.0.1''
               then configured_host env0 (Some ''10.0.0.5'') else ''localhost'')
              (configured_port env0 (Some (Port 9300)))"
    by (simp add: cached_def fresh_modules_def)
  have fx: "effects fresh_modules = []" "currentSession fresh_modules = None"
    by (simp_all add: fresh_modules_def)
  show ?thesis
    using refused_dial_ends_start [of "Some (Port 9300)" env0 refuse fresh_modules "Some ''10.0.0.5''" 1
        "''Error: connect ECONNREFUSED''"]
      h1 h2 h3
    by (simp add: ch cp fx)
qed

text \<open>
  C4. Let the configured host be neither \<^verbatim>\<open>localhost\<close> nor \<^verbatim>\<open>127.0.0.1\<close>, in a state
  that satisfies the invariant of the registry, as the initial state and every state
  reached by calls of \<^verbatim>\<open>manageDriverSession\<close> do. The first thing
  \<^verbatim>\<open>start\<close> does to the network is \<^verbatim>\<open>tryConnect\<close> on the loopback host and the configured
  port; anything it does with the configured host comes after it. If that attempt
  succeeds, \<^verbatim>\<open>start\<close> reports the session on \<^verbatim>\<open>localhost\<close>, the current session is the one
  obtained, its host is \<^verbatim>\<open>localhost\<close>, and nothing else was tried: no probe of the port
  scan, no attempt on the configured host.
\<close>

theorem loopback_is_tried_first:
  assumes "configured_host e hostArg \<noteq> ''localhost''" and "configured_host e hostArg \<noteq> ''127.0.0.1''"
    and "registry_ok s"
  shows "(\<exists>rest. effects (snd (manageDriverSession e net Start hostArg portArg s)) =
            effects s @ TryConnect ''localhost'' (configured_port e portArg) # rest) \<and>
         (\<forall>session.
            fst (tryConnect e net ''localhost'' (configured_port e portArg) (resetPluginClient s))
              = Resolved session \<longrightarrow>
            fst (manageDriverSession e net Start hostArg portArg s) =
              Some (started_message (cs_name session) ''localhost'' (cs_port session)) \<and>
            currentSession (snd (manageDriverSession e net Start hostArg portArg s)) = Some session \<and>
            cs_host session = ''localhost'' \<and>
            (effects (snd (manageDriverSession e net Start hostArg portArg s)) =
               effects s @ [TryConnect ''localhost'' (configured_port e portArg)] \<or>
             effects (snd (manageDriverSession e net Start hostArg portArg s)) =
               effects s @ [TryConnect ''localhost'' (configured_port e portArg),
                            Dial ''localhost'' (configured_port e portArg)]))"
proof -
  let ?ch = "configured_host e hostArg" and ?cp = "configured_port e portArg"
  let ?ex = "port_is_explicit e portArg"
  let ?s0 = "resetPluginClient s"
  obtain r s1 where t: "tryConnect e net ''localhost'' ?cp ?s0 = (r, s1)"
    by (cases "tryConnect e net ''localhost'' ?cp ?s0")
  have fx1: "\<exists>rest. effects s1 = effects s @ TryConnect ''localhost'' ?cp # rest"
    using tryConnect_effects [of e net "''localhost''" ?cp ?s0] t by auto
  have run: "manageDriverSession e net Start hostArg portArg s =
        (case r of
           Resolved session \<Rightarrow>
             (Some (started_message (cs_name session) ''localhost'' (cs_port session)),
              s1\<lparr>currentSession := Some session\<rparr>)
         | Rejected err \<Rightarrow> strategy2 e net ?ch ?cp ?ex s1
         | Unsettled \<Rightarrow> (None, s1))"
    using assms(1,2) t by (simp add: start_unfold strategy1_def)
  have first: "\<exists>rest. effects (snd (manageDriverSession e net Start hostArg portArg s)) =
            effects s @ TryConnect ''localhost'' ?cp # rest"
  proof (cases r)
    case (Rejected err)
    obtain added where "effects (snd (strategy2 e net ?ch ?cp ?ex s1)) = effects s1 @ added"
      using strategy2_facts(1) [of s1 e net ?ch ?cp ?ex] by (auto simp: grows_def)
    then show ?thesis using Rejected run fx1 by auto
  qed (use run fx1 in auto)
  have won: "\<forall>session. fst (tryConnect e net ''localhost'' ?cp ?s0) = Resolved session \<longrightarrow>
            fst (manageDriverSession e net Start hostArg portArg s) =
              Some (started_message (cs_name session) ''localhost'' (cs_port session)) \<and>
            currentSession (snd (manageDriverSession e net Start hostArg portArg s)) = Some session \<and>
            cs_host session = ''localhost'' \<and>
            (effects (snd (manageDriverSession e net Start hostArg portArg s)) =
               effects s @ [TryConnect ''localhost'' ?cp] \<or>
             effects (snd (manageDriverSession e net Start hostArg portArg s)) =
               effects s @ [TryConnect ''localhost'' ?cp, Dial ''localhost'' ?cp])"
  proof (intro allI impI)
    fix session
    assume a: "fst (tryConnect e net ''localhost'' ?cp ?s0) = Resolved session"
    then have r: "r = Resolved session" using t by simp
    have ok: "registry_ok ?s0" using assms(3) by simp
    have h: "cs_host session = ''localhost''" by (rule tryConnect_host [OF ok a])
    have fx2: "effects s1 = effects s @ [TryConnect ''localhost'' ?cp] \<or>
               effects s1 = effects s @ [TryConnect ''localhost'' ?cp, Dial ''localhost'' ?cp]"
      using tryConnect_resolved_effects [OF a] t by simp
    show "fst (manageDriverSession e net Start hostArg portArg s) =
              Some (started_message (cs_name session) ''localhost'' (cs_port session)) \<and>
            currentSession (snd (manageDriverSession e net Start hostArg portArg s)) = Some session \<and>
            cs_host session = ''localhost'' \<and>
            (effects (snd (manageDriverSession e net Start hostArg portArg s)) =
               effects s @ [TryConnect ''localhost'' ?cp] \<or>
             effects (snd (manageDriverSession e net Start hostArg portArg s)) =
               effects s @ [TryConnect ''localhost'' ?cp, Dial ''localhost'' ?cp])"
      using run r h fx2 by simp
  qed
  show ?thesis using first won by blast
qed

theorem loopback_is_tried_first_witness:
  "fst (manageDriverSession env0 only_loopback_9223 Start (Some ''10.0.0.5'') None fresh_modules) =
     Some ''Session started with app: Tauri App (localhost:9223) (localhost:9223)'' \<and>
   currentSession (snd (manageDriverSession env0 only_loopback_9223 Start (Some ''10.0.0.5'') None fresh_modules)) =
     Some \<lparr>cs_name = ''Tauri App (localhost:9223)'', cs_host = ''localhost'', cs_port = Port 9223\<rparr> \<and>
   effects (snd (manageDriverSession env0 only_loopback_9223 Start (Some ''10.0.0.5'') None fresh_modules)) =
     [TryConnect ''localhost'' (Port 9223), Dial ''localhost'' (Port 9223)]"
proof -
  have ch: "configured_host env0 (Some ''10.0.0.5'') = ''10.0.0.5''" by (simp add: configured_host_def)
  have cp: "configured_port env0 None = Port 9223"
    by (simp add: configured_port_def getDefaultPort_def env0_def)
  have h1: "configured_host env0 (Some ''10.0.0.5'') \<noteq> ''localhost''" by (simp add: ch)
  have h2: "configured_host env0 (Some ''10.0.0.5'') \<noteq> ''127.0.0.1''" by (simp add: ch)
  have n: "num_to_string 9223 = ''9223''" by (simp add: num_to_string.simps)
  have nc: "\<not> cached (resetPluginClient fresh_modules) ''localhost'' (Port 9223)"
    by (simp add: cached_def fresh_modules_def)
  have fx: "effects (resetPluginClient fresh_modules) = []" by (simp add: fresh_modules_def)
  have "only_loopback_9223 (Suc (length (effects (resetPluginClient fresh_modules)))) ''localhost'' (Port 9223) = Opens 5"
    by (simp add: only_loopback_9223_def)
  then have opens: "tryConnect env0 only_loopback_9223 ''localhost'' (Port 9223) (resetPluginClient fresh_modules) =
           (Resolved \<lparr>cs_name = ''Tauri App ('' @ ''localhost'' @ '':'' @ port_to_string (Port 9223) @ '')'',
                      cs_host = ''localhost'', cs_port = Port 9223\<rparr>,
            (resetPluginClient fresh_modules)
             \<lparr>appDiscovery := Some ((fst (getAppDiscovery env0 ''localhost'' (resetPluginClient fresh_modules)))
                 \<lparr>activeSessions := AList.update (sessionId ''localhost'' (Port 9223)) (dialled_session ''localhost'' (Port 9223))
                     (activeSessions (fst (getAppDiscovery env0 ''localhost'' (resetPluginClient fresh_modules))))\<rparr>),
              effects := effects (resetPluginClient fresh_modules) @ [TryConnect ''localhost'' (Port 9223), Dial ''localhost'' (Port 9223)]\<rparr>)"
    using tryConnect_opens [of "resetPluginClient fresh_modules" "''localhost''" "Port 9223" only_loopback_9223 5 env0] nc
    by blast
  have t: "fst (tryConnect env0 only_loopback_9223 ''localhost'' (Port 9223) (resetPluginClient fresh_modules)) =
     Resolved \<lparr>cs_name = ''Tauri App (localhost:9223)'', cs_host = ''localhost'', cs_port = Port 9223\<rparr>"
    by (simp add: opens n)
  have eff: "effects (snd (manageDriverSession env0 only_loopback_9223 Start (Some ''10.0.0.5'') None fresh_modules)) =
     [TryConnect ''localhost'' (Port 9223), Dial ''localhost'' (Port 9223)]"
    using fx by (simp add: start_unfold ch cp strategy1_def opens)
  show ?thesis
    using loopback_is_tried_first [of env0 "Some ''10.0.0.5''" fresh_modules only_loopback_9223 None]
      h1 h2 registry_ok_fresh t eff
    by (simp add: cp started_message_def n)
qed

end
